theory Spec2Isabelle
  imports Main "HOL-Library.Sublist"
begin

section \<open>Python strings and the Unicode tables of the runtime\<close>

text \<open>
  A Python \<open>str\<close> is a sequence of Unicode code points; it is modelled as a list of
  natural numbers.  String literals of the source are written \<open>cp ''...''\<close>: the code
  points of an ASCII literal.
\<close>

type_synonym ustr = "nat list"

definition cp :: "string \<Rightarrow> ustr" where
  "cp s = map of_char s"

text \<open>
  \<open>str.isspace\<close>, \<open>str.strip()\<close> and the regular expression class \<open>\s\<close> share one
  table in CPython (\<open>_PyUnicode_IsWhitespace\<close>): U+0009..U+000D, U+001C..U+0020,
  U+0085, U+00A0, U+1680, U+2000..U+200A, U+2028, U+2029, U+202F, U+205F, U+3000.
\<close>

definition py_isspace :: "nat \<Rightarrow> bool" where
  "py_isspace c =
     ((9 \<le> c \<and> c \<le> 13) \<or> (28 \<le> c \<and> c \<le> 32) \<or> c = 133 \<or> c = 160 \<or> c = 5760 \<or>
      (8192 \<le> c \<and> c \<le> 8202) \<or> c = 8232 \<or> c = 8233 \<or> c = 8239 \<or> c = 8287 \<or> c = 12288)"

definition strip :: "ustr \<Rightarrow> ustr" where
  "strip s = rev (dropWhile py_isspace (rev (dropWhile py_isspace s)))"

definition endswith :: "ustr \<Rightarrow> ustr \<Rightarrow> bool" where
  "endswith w s = (length s \<le> length w \<and> drop (length w - length s) w = s)"

definition startswith :: "ustr \<Rightarrow> ustr \<Rightarrow> bool" where
  "startswith w s = (take (length s) w = s)"

text \<open>
  The remaining tables (case mapping, normal forms, general categories) are large; the
  functions that read them take them as a parameter.  \<open>u_isdecimal\<close> is the class \<open>\d\<close>
  (category Nd), \<open>u_isword\<close> the class \<open>\w\<close>, \<open>u_mn\<close> the test
  \<open>unicodedata.category(c) == "Mn"\<close>, \<open>u_combining\<close> is \<open>unicodedata.combining\<close>, and
  \<open>u_kd c\<close> is the full compatibility decomposition of the code point \<open>c\<close>.
\<close>

record unicode_db =
  u_isdecimal :: "nat \<Rightarrow> bool"
  u_isword :: "nat \<Rightarrow> bool"
  u_upper :: "ustr \<Rightarrow> ustr"
  u_lower :: "ustr \<Rightarrow> ustr"
  u_nfc :: "ustr \<Rightarrow> ustr"
  u_nfd :: "ustr \<Rightarrow> ustr"
  u_mn :: "nat \<Rightarrow> bool"
  u_combining :: "nat \<Rightarrow> nat"
  u_kd :: "nat \<Rightarrow> ustr"

text \<open>
  For evaluation on concrete inputs: the tables restricted to ASCII text, together with
  the combining acute accent U+0301 and the ten accented vowels of the Qubee alphabet.
  On such text the functions below return what CPython returns.
\<close>

definition ascii_upper :: "nat \<Rightarrow> nat" where
  "ascii_upper c = (if 97 \<le> c \<and> c \<le> 122 then c - 32 else c)"

definition ascii_lower :: "nat \<Rightarrow> nat" where
  "ascii_lower c = (if 65 \<le> c \<and> c \<le> 90 then c + 32 else c)"

definition acute_vowels :: "(nat \<times> nat) list" where
  "acute_vowels = [(65, 193), (69, 201), (73, 205), (79, 211), (85, 218),
                   (97, 225), (101, 233), (105, 237), (111, 243), (117, 250)]"

fun compose_acute :: "ustr \<Rightarrow> ustr" where
  "compose_acute (b # m # r) =
     (if m = 769 then
        (case map_of acute_vowels b of
           Some p \<Rightarrow> p # compose_acute r
         | None \<Rightarrow> b # compose_acute (m # r))
      else b # compose_acute (m # r))"
| "compose_acute s = s"

definition decompose_acute :: "nat \<Rightarrow> ustr" where
  "decompose_acute c =
     (case map_of (map (\<lambda>(b, p). (p, b)) acute_vowels) c of
        Some b \<Rightarrow> [b, 769]
      | None \<Rightarrow> [c])"

definition ascii_db :: unicode_db where
  "ascii_db =
     \<lparr> u_isdecimal = (\<lambda>c. 48 \<le> c \<and> c \<le> 57),
       u_isword = (\<lambda>c. (48 \<le> c \<and> c \<le> 57) \<or> (65 \<le> c \<and> c \<le> 90) \<or> c = 95 \<or>
                        (97 \<le> c \<and> c \<le> 122) \<or> c \<in> snd ` set acute_vowels),
       u_upper = map (\<lambda>c. case map_of (zip (drop 5 (map snd acute_vowels)) (take 5 (map snd acute_vowels))) c of
                            Some p \<Rightarrow> p | None \<Rightarrow> ascii_upper c),
       u_lower = map (\<lambda>c. case map_of (zip (take 5 (map snd acute_vowels)) (drop 5 (map snd acute_vowels))) c of
                            Some p \<Rightarrow> p | None \<Rightarrow> ascii_lower c),
       u_nfc = compose_acute,
       u_nfd = (\<lambda>s. concat (map decompose_acute s)),
       u_mn = (\<lambda>c. c = 769),
       u_combining = (\<lambda>c. if c = 769 then 230 else 0),
       u_kd = decompose_acute \<rparr>"

section \<open>The character model (alphabet.py)\<close>

definition CONSONANTS :: "nat list" where
  "CONSONANTS = cp ''BCDFGHJKLMNPQRSTVWXYZ''"

definition VOWELS :: "nat list" where
  "VOWELS = cp ''AEIOU''"

text \<open>\<open>DIACRITICS\<close>: accented vowel to base vowel, upper case then lower case.\<close>

definition DIACRITICS :: "(nat \<times> nat) list" where
  "DIACRITICS = [(193, 65), (201, 69), (205, 73), (211, 79), (218, 85),
                 (225, 97), (233, 101), (237, 105), (243, 111), (250, 117)]"

text \<open>
  \<open>is_consonant\<close> and \<open>is_vowel\<close> upper-case one character and test membership.  The
  syllabifier calls them on characters of an ASCII word only, where \<open>char.upper()\<close> is
  \<open>ascii_upper\<close>.
\<close>

definition is_consonant :: "nat \<Rightarrow> bool" where
  "is_consonant c = (ascii_upper c \<in> set CONSONANTS)"

definition is_vowel :: "nat \<Rightarrow> bool" where
  "is_vowel c = (ascii_upper c \<in> set VOWELS)"

definition normalize_diacritics :: "ustr \<Rightarrow> ustr" where
  "normalize_diacritics text = map (\<lambda>c. case map_of DIACRITICS c of Some b \<Rightarrow> b | None \<Rightarrow> c) text"

section \<open>Stop words (stopwords.py)\<close>

definition load_default_stopwords :: "ustr list" where
  "load_default_stopwords =
     map cp [''WAA'', ''WAAEE'', ''WAAEEN'',
             ''ANI'', ''ATE'', ''ISA'', ''ISI'', ''ISAN'',
             ''FI'', ''YOO'', ''SILAA'', ''ERGASII'',
             ''IRRA'', ''KEESSAA'', ''GADII'',
             ''TAA'', ''DHA'', ''JIRA'',
             ''AMMA'', ''AMMAA'', ''SANA'',
             ''EENYUU'', ''MAAL'', ''EESSAA'',
             ''KUN'', ''SUN'', ''KANA'',
             ''HAA'', ''TAY'', ''NU'', ''NUU'']"

definition categories :: "(string \<times> ustr list) list" where
  "categories =
     [(''pronouns'', map cp [''ANI'', ''ATE'', ''ISAN'', ''ISA'', ''ISI'', ''ISII'', ''NU'', ''NUU'',
                             ''ISIN'', ''KEENYA'', ''KEENYAA'', ''KEE'', ''KIYYA'', ''SANI'', ''SAN'']),
      (''conjunctions'', map cp [''FI'', ''YOO'', ''SILAA'', ''YEROO'', ''ERGASII'',
                                 ''HAA'', ''TAY'', ''AKKAS'', ''AKKANA'']),
      (''prepositions'', map cp [''IRRA'', ''IRRAA'', ''IRRAAN'', ''IRRAATTI'',
                                 ''KEESSAA'', ''KEESSATTI'', ''GADII'', ''GADI'', ''WAAJIN'', ''FAANAA'']),
      (''auxiliary_verbs'', map cp [''TAA'', ''TAUU'', ''DHA'', ''DHAUU'', ''JIRA'', ''JIRUU'']),
      (''demonstratives'', map cp [''KUN'', ''SUN'', ''KANA'', ''SANA'', ''AKKANA'', ''AKKAS'']),
      (''question_words'', map cp [''EENYUU'', ''MAAL'', ''EESSAA'', ''YOO'']),
      (''adverbs'', map cp [''AMMA'', ''AMMAA'', ''ACHII'', ''ASI'', ''DHUGAA'', ''DHUGAATTI''])]"

text \<open>
  The object state read by the filter is the set \<open>self.stopwords\<close>; \<open>add_stopwords\<close> and
  \<open>remove_stopwords_set\<close> may change it, so the operations take it as an argument.
  \<open>StopWords_init\<close> is the constructor's value of it.
\<close>

definition StopWords_init :: "bool \<Rightarrow> ustr set" where
  "StopWords_init include_common =
     (if include_common then set load_default_stopwords \<union> set (concat (map snd categories))
      else set load_default_stopwords)"

definition variant_suffixes :: "ustr list" where
  "variant_suffixes = map cp [''TI'', ''TII'', ''N'', ''NI'', ''F'', ''FI'', ''S'', ''SI'']"

definition get_variants :: "ustr \<Rightarrow> ustr list" where
  "get_variants word =
     map (\<lambda>suf. take (length word - length suf) word)
         (filter (\<lambda>suf. endswith word suf \<and> length word > length suf) variant_suffixes)
     @ (if endswith word (cp ''KEE'') then [take (length word - 3) word] else [])
     @ (if endswith word (cp ''SAA'') then [take (length word - 3) word] else [])
     @ (if endswith word (cp ''SA'') then [take (length word - 2) word] else [])"

definition is_stopword :: "unicode_db \<Rightarrow> ustr set \<Rightarrow> ustr \<Rightarrow> bool \<Rightarrow> bool" where
  "is_stopword U stopwords word check_variants =
     (if word = [] then False
      else
        let w = u_upper U word in
        if w \<in> stopwords then True
        else if check_variants then list_ex (\<lambda>v. v \<in> stopwords) (get_variants w)
        else False)"

definition remove_stopwords :: "unicode_db \<Rightarrow> ustr set \<Rightarrow> ustr list \<Rightarrow> bool \<Rightarrow> ustr list" where
  "remove_stopwords U stopwords words check_variants =
     filter (\<lambda>w. \<not> is_stopword U stopwords w check_variants) words"

section \<open>The stemmer (stemmer.py)\<close>

text \<open>\<open>self.suffixes\<close>, in the order of the source, and \<open>self.irregular_forms\<close>.\<close>

definition suffixes :: "(ustr \<times> ustr) list" where
  "suffixes =
     map (\<lambda>s. (cp s, cp []))
       [''KEESSATTI'', ''KOOTTI'', ''KOOTA'',
        ''TOOTA'', ''OOTA'', ''OTA'',
        ''NEENI'', ''ETTI'', ''ANI'', ''ANII'',
        ''ACHUU'', ''ITAN'', ''ATAN'',
        ''WWAN'', ''UU'',
        ''ICHA'', ''ICHAA'',
        ''DHA'', ''TA'', ''KEE'',
        ''SA'', ''SAA'',
        ''TIIN'', ''TTI'',
        ''TII'', ''UMMAA'',
        ''INA'', ''AA'', ''OO'',
        ''I'']"

definition irregular_forms :: "(ustr \<times> ustr) list" where
  "irregular_forms =
     [(cp ''DHUFAN'', cp ''DHUF''),
      (cp ''DHAQAN'', cp ''DHAQ''),
      (cp ''BEEKAN'', cp ''BEEK''),
      (cp ''JEDHAN'', cp ''JEDH''),
      (cp ''QABAN'', cp ''QAB''),
      (cp ''ARGATAN'', cp ''ARGAT''),
      (cp ''BARATAN'', cp ''BARAT''),
      (cp ''DHIISAN'', cp ''DHIIS''),
      (cp ''FIDAN'', cp ''FID''),
      (cp ''KENNAN'', cp ''KENN'')]"

text \<open>
  \<open>sorted(self.suffixes, key=lambda x: -len(x[0]))\<close> is a stable sort by decreasing
  length; \<open>sort_key\<close> is the stable insertion sort.
\<close>

definition sorted_suffixes :: "(ustr \<times> ustr) list" where
  "sorted_suffixes = sort_key (\<lambda>x. - int (length (fst x))) suffixes"

text \<open>
  The loop of \<open>stem\<close> stops at the first entry of the sorted list whose suffix ends the
  word and is shorter than it (\<open>break\<close>); \<open>find\<close> returns that entry.
\<close>

definition suffix_applies :: "ustr \<Rightarrow> ustr \<times> ustr \<Rightarrow> bool" where
  "suffix_applies word entry = (endswith word (fst entry) \<and> length word > length (fst entry))"

definition strip_suffix :: "ustr \<Rightarrow> ustr \<times> ustr \<Rightarrow> ustr" where
  "strip_suffix word entry = take (length word - length (fst entry)) word @ snd entry"

definition stem :: "unicode_db \<Rightarrow> ustr \<Rightarrow> ustr" where
  "stem U word0 =
     (let word = normalize_diacritics (u_upper U word0) in
      case map_of irregular_forms word of
        Some root \<Rightarrow> root
      | None \<Rightarrow>
          let original = word;
              word' = (case find (suffix_applies word) sorted_suffixes of
                         Some entry \<Rightarrow> strip_suffix word entry
                       | None \<Rightarrow> word)
          in if length word' < 2 then original else word')"

section \<open>The part-of-speech tagger (pos/tagsets.py, pos/tagger.py)\<close>

text \<open>\<open>POS_TAGSET\<close>: tag, description, universal tag, in the order of the source.\<close>

definition POS_TAGSET :: "(ustr \<times> ustr \<times> ustr) list" where
  "POS_TAGSET =
     [(cp ''NN'', cp ''Common noun'', cp ''NOUN''),
      (cp ''NNC'', cp ''Count noun'', cp ''NOUN''),
      (cp ''NNM'', cp ''Mass noun'', cp ''NOUN''),
      (cp ''NPROP'', cp ''Proper noun'', cp ''NOUN''),
      (cp ''NPL'', cp ''Plural noun'', cp ''NOUN''),
      (cp ''PPER'', cp ''Personal pronoun'', cp ''PRON''),
      (cp ''PDEM'', cp ''Demonstrative pronoun'', cp ''PRON''),
      (cp ''PINT'', cp ''Interrogative pronoun'', cp ''PRON''),
      (cp ''PREL'', cp ''Relative pronoun'', cp ''PRON''),
      (cp ''POSS'', cp ''Possessive pronoun'', cp ''PRON''),
      (cp ''PREFL'', cp ''Reflexive pronoun'', cp ''PRON''),
      (cp ''VB'', cp ''Base form verb'', cp ''VERB''),
      (cp ''VBF'', cp ''Finite verb'', cp ''VERB''),
      (cp ''VBINF'', cp ''Infinitive verb'', cp ''VERB''),
      (cp ''VBIMP'', cp ''Imperative verb'', cp ''VERB''),
      (cp ''VBPART'', cp ''Participial verb'', cp ''VERB''),
      (cp ''VBCAUS'', cp ''Causative verb'', cp ''VERB''),
      (cp ''VBPASS'', cp ''Passive verb'', cp ''VERB''),
      (cp ''VBREFL'', cp ''Reflexive verb'', cp ''VERB''),
      (cp ''VBAUX'', cp ''Auxiliary verb'', cp ''VERB''),
      (cp ''JJ'', cp ''Adjective'', cp ''ADJ''),
      (cp ''JJC'', cp ''Comparative adjective'', cp ''ADJ''),
      (cp ''JJS'', cp ''Superlative adjective'', cp ''ADJ''),
      (cp ''JJNUM'', cp ''Numeral adjective'', cp ''ADJ''),
      (cp ''JJPOSS'', cp ''Possessive adjective'', cp ''ADJ''),
      (cp ''RB'', cp ''Adverb'', cp ''ADV''),
      (cp ''RBC'', cp ''Comparative adverb'', cp ''ADV''),
      (cp ''RBS'', cp ''Superlative adverb'', cp ''ADV''),
      (cp ''RBINT'', cp ''Interrogative adverb'', cp ''ADV''),
      (cp ''RBNEG'', cp ''Negative adverb'', cp ''ADV''),
      (cp ''DT'', cp ''Determiner'', cp ''DET''),
      (cp ''DTDEM'', cp ''Demonstrative determiner'', cp ''DET''),
      (cp ''DTINT'', cp ''Interrogative determiner'', cp ''DET''),
      (cp ''DTPOSS'', cp ''Possessive determiner'', cp ''DET''),
      (cp ''DTIND'', cp ''Indefinite determiner'', cp ''DET''),
      (cp ''IN'', cp ''Preposition'', cp ''ADP''),
      (cp ''POST'', cp ''Postposition'', cp ''ADP''),
      (cp ''CC'', cp ''Coordinating conjunction'', cp ''CONJ''),
      (cp ''CS'', cp ''Subordinating conjunction'', cp ''CONJ''),
      (cp ''RP'', cp ''Particle'', cp ''PRT''),
      (cp ''NEG'', cp ''Negative particle'', cp ''PRT''),
      (cp ''FOC'', cp ''Focus particle'', cp ''PRT''),
      (cp ''Q'', cp ''Question particle'', cp ''PRT''),
      (cp ''UH'', cp ''Interjection'', cp ''INTJ''),
      (cp ''CD'', cp ''Cardinal number'', cp ''NUM''),
      (cp ''OD'', cp ''Ordinal number'', cp ''NUM''),
      (cp ''FW'', cp ''Foreign word'', cp ''X''),
      (cp ''SYM'', cp ''Symbol'', cp ''X''),
      (cp ''LS'', cp ''List item marker'', cp ''X''),
      (cp ''.'', cp ''Sentence-final punctuation'', cp ''PUNC''),
      (cp '','', cp ''Comma'', cp ''PUNC''),
      (cp '':'', cp ''Colon'', cp ''PUNC''),
      (cp '';'', cp ''Semicolon'', cp ''PUNC''),
      (cp [CHR 0x60, CHR 0x60], cp ''Opening quote'', cp ''PUNC''),
      (cp [CHR 0x27, CHR 0x27], cp ''Closing quote'', cp ''PUNC''),
      (cp ''('', cp ''Opening parenthesis'', cp ''PUNC''),
      (cp '')'', cp ''Closing parenthesis'', cp ''PUNC'')]"

text \<open>The suffix dictionaries, in insertion order (the order \<open>.items()\<close> iterates in).\<close>

definition VERB_SUFFIXES :: "(ustr \<times> ustr) list" where
  "VERB_SUFFIXES =
     [(cp ''uu'', cp ''VBINF''),
      (cp ''aa'', cp ''VBF''),
      (cp ''ee'', cp ''VBF''),
      (cp ''i'', cp ''VBIMP''),
      (cp ''u'', cp ''VBPART''),
      (cp ''si'', cp ''VBCAUS''),
      (cp ''am'', cp ''VBPASS''),
      (cp ''at'', cp ''VBREFL'')]"

definition NOUN_SUFFIXES :: "(ustr \<times> ustr) list" where
  "NOUN_SUFFIXES =
     [(cp ''ii'', cp ''NPL''),
      (cp ''ww'', cp ''NPL''),
      (cp ''aa'', cp ''NN''),
      (cp ''oo'', cp ''NN''),
      (cp ''uu'', cp ''NN'')]"

definition get_universal_tag :: "ustr \<Rightarrow> ustr option" where
  "get_universal_tag tag = map_option snd (map_of POS_TAGSET tag)"

definition map_to_universal :: "ustr \<Rightarrow> ustr" where
  "map_to_universal tag =
     (case get_universal_tag tag of
        Some utag \<Rightarrow> if utag \<noteq> [] then utag else cp ''X''
      | None \<Rightarrow> cp ''X'')"

definition DEFAULT_TAG :: ustr where "DEFAULT_TAG = cp ''UNK''"
definition NUM_TAG :: ustr where "NUM_TAG = cp ''NUM''"
definition PUNC_TAG :: ustr where "PUNC_TAG = cp ''PUNC''"

definition LEXICON :: "(ustr \<times> ustr) list" where
  "LEXICON =
     [(cp ''guddaa'', cp ''ADJ''),
      (cp ''xixiqqoo'', cp ''ADJ''),
      (cp (''waa'' @ [CHR 0x27] @ ''ee''), cp ''NOUN''),
      (cp ''afaan'', cp ''NOUN''),
      (cp ''biyya'', cp ''NOUN''),
      (cp ''ani'', cp ''PRON''),
      (cp ''isin'', cp ''PRON'')]"

definition PREPOSITIONS :: "ustr list" where
  "PREPOSITIONS =
     [cp ''fi'', cp ''yookiin'', cp ''gara'', cp ''jalatti'', cp ''bira'', cp ''keessa'',
      cp ''alaa'', cp ''wajjin'', cp ''malee'', cp (''waa'' @ [CHR 0x27] @ ''ee'')]"

definition afaan_oromoo_numbers :: "ustr list" where
  "afaan_oromoo_numbers =
     map cp [''tokko'', ''lama'', ''sadi'', ''afur'', ''shan'', ''jahaa'',
             ''torba'', ''saddeet'', ''sagal'', ''kudha'']"

text \<open>\<open>string.punctuation\<close>: the 32 ASCII punctuation characters.\<close>

definition punctuation :: "nat list" where
  "punctuation = [33 ..< 48] @ [58 ..< 65] @ [91 ..< 97] @ [123 ..< 127]"

text \<open>\<open>re.fullmatch(r"\d+(\.\d+)?", s)\<close>: decimal digits, then optionally a period and decimal digits.\<close>

definition is_number :: "unicode_db \<Rightarrow> ustr \<Rightarrow> bool" where
  "is_number U s =
     (let ds = takeWhile (u_isdecimal U) s; r = dropWhile (u_isdecimal U) s in
      ds \<noteq> [] \<and> (r = [] \<or> (hd r = 46 \<and> tl r \<noteq> [] \<and> list_all (u_isdecimal U) (tl r))))"

text \<open>\<open>re.fullmatch(r"[a-zA-Z'-]+", s)\<close>.\<close>

definition is_word_char :: "nat \<Rightarrow> bool" where
  "is_word_char c = ((97 \<le> c \<and> c \<le> 122) \<or> (65 \<le> c \<and> c \<le> 90) \<or> c = 39 \<or> c = 45)"

definition is_plain_word :: "ustr \<Rightarrow> bool" where
  "is_plain_word s = (s \<noteq> [] \<and> list_all is_word_char s)"

text \<open>
  Rules 0 to 4 of \<open>_tag_token\<close> (lexicon, numbers, punctuation, prepositions,
  conjunctions), in the order of the source; \<open>None\<close> when none of them returns.
\<close>

definition closed_class_rules :: "unicode_db \<Rightarrow> ustr \<Rightarrow> ustr option" where
  "closed_class_rules U t_lower =
     (case map_of LEXICON t_lower of
        Some tag \<Rightarrow> Some tag
      | None \<Rightarrow>
          if t_lower \<in> set afaan_oromoo_numbers \<or> is_number U t_lower then Some NUM_TAG
          else if list_all (\<lambda>c. c \<in> set (removeAll 39 punctuation)) t_lower then Some PUNC_TAG
          else if t_lower \<in> set PREPOSITIONS then Some (cp ''ADP'')
          else if t_lower \<in> set [cp ''fi'', cp ''yookiin''] then Some (cp ''CONJ'')
          else None)"

text \<open>
  Rules 5 and 6: \<open>for suffix, tag in TABLE.items(): if t_lower.endswith(suffix): return
  map_to_universal(tag)\<close>.  The loop returns at the first entry, in table order, whose
  suffix ends the token.
\<close>

definition first_match :: "(ustr \<times> ustr) list \<Rightarrow> ustr \<Rightarrow> (ustr \<times> ustr) option" where
  "first_match table t_lower = find (\<lambda>entry. endswith t_lower (fst entry)) table"

definition suffix_rule :: "(ustr \<times> ustr) list \<Rightarrow> ustr \<Rightarrow> ustr option" where
  "suffix_rule table t_lower =
     (case first_match table t_lower of
        Some entry \<Rightarrow> Some (map_to_universal (snd entry))
      | None \<Rightarrow> None)"


text \<open>Rules 7 and 8.\<close>

definition orthographic_rules :: "ustr \<Rightarrow> ustr" where
  "orthographic_rules t_lower =
     (if is_plain_word t_lower then
        (if 45 \<in> set t_lower \<or> 39 \<in> set t_lower then cp ''NOUN''
         else if endswith t_lower (cp ''aa'') \<or> endswith t_lower (cp ''oo'') \<or> endswith t_lower (cp ''uu'')
           then cp ''ADJ''
         else DEFAULT_TAG)
      else cp ''X'')"

definition tag_token :: "unicode_db \<Rightarrow> ustr \<Rightarrow> ustr" where
  "tag_token U token =
     (let t = strip token in
      if t = [] then DEFAULT_TAG
      else
        let t_lower = u_lower U t in
        case closed_class_rules U t_lower of
          Some tag \<Rightarrow> tag
        | None \<Rightarrow>
            (case suffix_rule VERB_SUFFIXES t_lower of
               Some tag \<Rightarrow> tag
             | None \<Rightarrow>
                 (case suffix_rule NOUN_SUFFIXES t_lower of
                    Some tag \<Rightarrow> tag
                  | None \<Rightarrow> orthographic_rules t_lower)))"

definition tag :: "unicode_db \<Rightarrow> ustr list \<Rightarrow> ustr list" where
  "tag U tokens = (if tokens = [] then [] else map (tag_token U) tokens)"

section \<open>The syllabifier (syllabifier.py)\<close>

definition digraphs :: "ustr list" where
  "digraphs = map cp [''ch'', ''dh'', ''ny'', ''ph'', ''sh'']"

text \<open>
  \<open>_normalize_word\<close>: NFKD, then \<open>encode("ASCII", "ignore")\<close>, then \<open>lower()\<close>.  NFKD
  replaces every code point by its full compatibility decomposition and reorders
  combining marks; ASCII code points decompose to themselves and are never reordered.
  So the ASCII code points that survive the encoding are, in order, the ASCII code
  points of each character's decomposition.  The result is ASCII, where \<open>lower()\<close> is
  \<open>ascii_lower\<close>.
\<close>

definition ascii_fold :: "unicode_db \<Rightarrow> nat \<Rightarrow> ustr" where
  "ascii_fold U c = filter (\<lambda>d. d < 128) (if c < 128 then [c] else u_kd U c)"

definition normalize_word :: "unicode_db \<Rightarrow> ustr \<Rightarrow> ustr" where
  "normalize_word U word = map ascii_lower (concat (map (ascii_fold U) word))"

text \<open>\<open>_contains_digit\<close> is called on the normalized word, which is ASCII; there
  \<open>ch.isdigit()\<close> holds of \<open>0\<close> to \<open>9\<close> only.\<close>

definition contains_digit :: "ustr \<Rightarrow> bool" where
  "contains_digit word = list_ex (\<lambda>ch. 48 \<le> ch \<and> ch \<le> 57) word"

text \<open>\<open>re.fullmatch(r"[a-zA-Z'-]+", word)\<close> and \<open>re.fullmatch(r"[a-z'-]+", word)\<close>.\<close>

definition is_valid_word :: "ustr \<Rightarrow> bool" where
  "is_valid_word word = (word \<noteq> [] \<and> list_all is_word_char word)"

definition is_lower_word :: "ustr \<Rightarrow> bool" where
  "is_lower_word word = (word \<noteq> [] \<and> list_all (\<lambda>c. (97 \<le> c \<and> c \<le> 122) \<or> c = 39 \<or> c = 45) word)"

text \<open>\<open>word.split(sep)\<close> for a separator of one character.\<close>

fun split_on :: "nat \<Rightarrow> ustr \<Rightarrow> ustr list" where
  "split_on sep [] = [[]]"
| "split_on sep (c # cs) =
     (if c = sep then [] # split_on sep cs
      else (case split_on sep cs of
              p # ps \<Rightarrow> (c # p) # ps
            | [] \<Rightarrow> [[c]]))"

text \<open>
  The onset loop: consonants, a digraph taken as two characters at once.  The function
  returns the onset and the rest of the word (\<open>word[i:]\<close> after the loop).
\<close>

fun take_onset :: "ustr \<Rightarrow> ustr \<times> ustr" where
  "take_onset [] = ([], [])"
| "take_onset [c] = (if is_consonant c then ([c], []) else ([], [c]))"
| "take_onset (c # d # r) =
     (if is_consonant c then
        (if [c, d] \<in> set digraphs
         then (case take_onset r of (onset, rest) \<Rightarrow> (c # d # onset, rest))
         else (case take_onset (d # r) of (onset, rest) \<Rightarrow> (c # onset, rest)))
      else ([], c # d # r))"

text \<open>
  The coda: one consonant, if it is the last character of the word or is followed by a
  consonant with which it does not form a digraph.
\<close>

fun take_coda :: "ustr \<Rightarrow> ustr \<times> ustr" where
  "take_coda [] = ([], [])"
| "take_coda [c] = (if is_consonant c then ([c], []) else ([], [c]))"
| "take_coda (c # d # r) =
     (if is_consonant c \<and> is_consonant d \<and> [c, d] \<notin> set digraphs then ([c], d # r)
      else ([], c # d # r))"

lemma dropWhile_shorter: "takeWhile P s \<noteq> [] \<Longrightarrow> length (dropWhile P s) < length s"
  by (cases s) (auto simp: le_imp_less_Suc length_dropWhile_le split: if_splits)

lemma take_onset_length: "take_onset s = (onset, rest) \<Longrightarrow> length rest \<le> length s"
  by (induction s arbitrary: onset rest rule: take_onset.induct)
     (auto split: if_splits prod.splits)

lemma take_coda_length: "take_coda s = (coda, rest) \<Longrightarrow> length rest \<le> length s"
  by (induction s rule: take_coda.induct) (auto split: if_splits)

text \<open>
  The main loop \<open>while i < n\<close>.  \<open>rest\<close> is \<open>word[i:]\<close>; the result is the list of
  syllables and \<open>word[i:]\<close> at the end of the loop.  When no vowel follows the onset
  the loop breaks with \<open>i\<close> after the onset.
\<close>

function syllable_loop :: "ustr \<Rightarrow> ustr list \<Rightarrow> ustr list \<times> ustr" where
  "syllable_loop rest syllables =
     (if rest = [] then (syllables, rest)
      else
        (case take_onset rest of (onset, r1) \<Rightarrow>
           let nucleus = takeWhile is_vowel r1; r2 = dropWhile is_vowel r1 in
           if nucleus = [] then (syllables, r1)
           else
             (case take_coda r2 of (coda, r3) \<Rightarrow>
                syllable_loop r3 (syllables @ [onset @ nucleus @ coda]))))"
  by pat_completeness auto
termination
proof (relation "measure (\<lambda>(rest, syllables). length rest)", goal_cases)
  case 1
  show ?case by simp
next
  case (2 rest syllables onset r1 nucleus r2 coda r3)
  have "length r1 \<le> length rest"
    using 2 take_onset_length [of rest onset r1] by simp
  moreover have "length r2 < length r1"
    using 2 dropWhile_shorter [of is_vowel r1] by simp
  moreover have "length r3 \<le> length r2"
    using 2 take_coda_length [of r2 coda r3] by simp
  ultimately show ?case by simp
qed

declare syllable_loop.simps [simp del]

text \<open>
  The parse of a word without separators: the loop, the leftover attachment, the
  reconstruction check and the consonant-only fallback.
\<close>

definition parse_syllables :: "ustr \<Rightarrow> ustr list" where
  "parse_syllables word =
     (case syllable_loop word [] of (syllables, leftover) \<Rightarrow>
        let syllables =
              (if leftover \<noteq> [] then
                 (if syllables \<noteq> [] then butlast syllables @ [last syllables @ leftover]
                  else [leftover])
               else syllables)
        in if concat syllables \<noteq> word then [word]
           else if syllables = [] then [word]
           else syllables)"

text \<open>
  \<open>syllabify\<close>.  The recursive calls on the parts of a word with separators go
  through all the checks and the normalization again, as in the source.
\<close>

lemma ascii_fold_fix: "c < 128 \<Longrightarrow> ascii_fold U c = [c]"
  by (simp add: ascii_fold_def)

lemma normalize_word_fix:
  "list_all (\<lambda>c. c < 128 \<and> ascii_lower c = c) w \<Longrightarrow> normalize_word U w = w"
  by (induction w) (auto simp: normalize_word_def ascii_fold_fix)

lemma normalize_word_ascii: "list_all (\<lambda>c. c < 128) (normalize_word U w)"
  by (auto simp: normalize_word_def ascii_fold_def list_all_iff ascii_lower_def)

lemma ascii_lower_idem: "ascii_lower (ascii_lower c) = ascii_lower c"
  by (simp add: ascii_lower_def)

lemma normalize_word_lower: "list_all (\<lambda>c. ascii_lower c = c) (normalize_word U w)"
  by (auto simp: normalize_word_def list_all_iff ascii_lower_idem)

lemma normalize_word_idem: "normalize_word U (normalize_word U w) = normalize_word U w"
  using normalize_word_ascii [of U w] normalize_word_lower [of U w]
  by (intro normalize_word_fix) (auto simp: list_all_iff)

lemma split_on_nonempty: "split_on sep w \<noteq> []"
  by (induction w) (auto split: list.splits)

lemma split_on_parts:
  "p \<in> set (split_on sep w) \<Longrightarrow> set p \<subseteq> set w \<and> sep \<notin> set p \<and> length p \<le> length w"
proof (induction w arbitrary: p)
  case Nil
  then show ?case by simp
next
  case (Cons c w)
  show ?case
  proof (cases "c = sep")
    case True
    with Cons show ?thesis by (auto simp: le_SucI)
  next
    case False
    obtain q qs where q: "split_on sep w = q # qs"
      using split_on_nonempty [of sep w] by (cases "split_on sep w") auto
    with Cons.prems False have "p = c # q \<or> p \<in> set qs" by auto
    then show ?thesis
    proof
      assume "p = c # q"
      moreover have "set q \<subseteq> set w \<and> sep \<notin> set q \<and> length q \<le> length w"
        using Cons.IH [of q] q by simp
      ultimately show ?thesis using False by auto
    next
      assume "p \<in> set qs"
      then have "set p \<subseteq> set w \<and> sep \<notin> set p \<and> length p \<le> length w"
        using Cons.IH [of p] q by simp
      then show ?thesis by (auto simp: le_SucI)
    qed
  qed
qed

lemma member_length_concat: "p \<in> set xs \<Longrightarrow> length p \<le> length (concat xs)"
  by (induction xs) auto

lemma split_on_shorter:
  assumes "p \<in> set (split_on sep w)" and "sep \<in> set w"
  shows "length p < length w"
proof -
  from split_on_parts [OF assms(1)] have s: "set p \<subseteq> set w" "sep \<notin> set p" "length p \<le> length w"
    by simp_all
  have "concat (split_on sep w) = filter (\<lambda>c. c \<noteq> sep) w"
    by (induction w) (auto split: list.splits simp: split_on_nonempty)
  then have "length (concat (split_on sep w)) < length w"
    using assms(2) length_filter_less [of sep w "\<lambda>c. c \<noteq> sep"] by simp
  moreover have "length p \<le> length (concat (split_on sep w))"
    using assms(1) by (rule member_length_concat)
  ultimately show ?thesis by simp
qed

lemma part_normalized:
  assumes "p \<in> set (split_on sep (normalize_word U w))"
  shows "normalize_word U p = p"
proof -
  from split_on_parts [OF assms] have "set p \<subseteq> set (normalize_word U w)" by simp
  with normalize_word_ascii [of U w] normalize_word_lower [of U w]
  have "list_all (\<lambda>c. c < 128 \<and> ascii_lower c = c) p"
    by (auto simp: list_all_iff)
  then show ?thesis by (rule normalize_word_fix)
qed

lemma part_measure:
  assumes "p \<in> set (split_on sep (normalize_word U w))" and "sep \<in> set (normalize_word U w)"
  shows "length (normalize_word U p) < length (normalize_word U w)"
  using part_normalized [OF assms(1)] split_on_shorter [OF assms] by simp

function syllabify :: "unicode_db \<Rightarrow> bool \<Rightarrow> ustr \<Rightarrow> ustr list" where
  "syllabify U strict_mode word0 =
     (if word0 = [] \<or> strip word0 = [] then []
      else
        let word = normalize_word U word0 in
        if contains_digit word then []
        else if \<not> is_valid_word word then []
        else if strict_mode \<and> \<not> is_lower_word word then []
        else if 39 \<in> set word then concat (map (syllabify U strict_mode) (split_on 39 word))
        else if 45 \<in> set word then concat (map (syllabify U strict_mode) (split_on 45 word))
        else parse_syllables word)"
  by pat_completeness auto
termination
proof (relation "measure (\<lambda>(U, strict_mode, word0). length (normalize_word U word0))", goal_cases)
  case 1
  show ?case by simp
next
  case (2 U strict_mode word0 word p)
  then show ?case by (simp add: part_measure)
next
  case (3 U strict_mode word0 word p)
  then show ?case by (simp add: part_measure)
qed

declare syllabify.simps [simp del]

text \<open>The words that pass the checks at the head of \<open>syllabify\<close>.\<close>

definition accepts :: "unicode_db \<Rightarrow> bool \<Rightarrow> ustr \<Rightarrow> bool" where
  "accepts U strict_mode word0 =
     (strip word0 \<noteq> [] \<and> \<not> contains_digit (normalize_word U word0)
      \<and> is_valid_word (normalize_word U word0)
      \<and> (\<not> strict_mode \<or> is_lower_word (normalize_word U word0)))"

definition no_separators :: "ustr \<Rightarrow> ustr" where
  "no_separators word = filter (\<lambda>c. c \<noteq> 39 \<and> c \<noteq> 45) word"

section \<open>The tokenizer (tokenizer.py)\<close>

record tokenizer =
  preserve_case :: bool
  strict :: bool

text \<open>
  The failures of the tokenizer.  All three are \<open>ValueError\<close> in the source, with the
  messages "Digits are not allowed in strict mode", "Invalid token in strict mode:
  <token>" and "No valid tokens found".  The argument is a \<open>str\<close> by its type here, so
  "Input must be a string" cannot arise.
\<close>

datatype error = DigitsNotAllowed | InvalidToken ustr | NoValidTokens

subsection \<open>The word pattern\<close>

text \<open>
  \<open>_word_pattern\<close> is \<open>[L]+(?:['-][L]+)*\<close> with the letter class
  \<open>L = A-Za-z\<close>, U+00C0..U+00D6, U+00D8..U+00F6, U+00F8..U+00FF.  Both quantifiers are
  greedy and the first alternative tried succeeds, so the match at a position is: the
  longest run of letters (at least one), then, as long as an apostrophe or hyphen is
  followed by a letter, that separator and the longest run of letters after it.
\<close>

definition is_pattern_letter :: "nat \<Rightarrow> bool" where
  "is_pattern_letter c =
     ((65 \<le> c \<and> c \<le> 90) \<or> (97 \<le> c \<and> c \<le> 122) \<or> (192 \<le> c \<and> c \<le> 214) \<or>
      (216 \<le> c \<and> c \<le> 246) \<or> (248 \<le> c \<and> c \<le> 255))"

function match_groups :: "ustr \<Rightarrow> nat" where
  "match_groups s =
     (case s of
        c # d # r \<Rightarrow>
          if (c = 39 \<or> c = 45) \<and> is_pattern_letter d
          then 2 + length (takeWhile is_pattern_letter r) + match_groups (dropWhile is_pattern_letter r)
          else 0
      | _ \<Rightarrow> 0)"
  by pat_completeness auto
termination
  by (relation "measure length") (simp_all add: less_Suc_eq_le le_SucI length_dropWhile_le)

declare match_groups.simps [simp del]

text \<open>The length of the match of the pattern at the start of \<open>s\<close>, if there is one.\<close>

definition word_match :: "ustr \<Rightarrow> nat option" where
  "word_match s =
     (let n = length (takeWhile is_pattern_letter s) in
      if n = 0 then None else Some (n + match_groups (drop n s)))"

text \<open>
  \<open>finditer\<close> and \<open>findall\<close> scan from left to right: where the pattern matches, the
  match is reported and the scan goes on at its end; elsewhere the scan moves on by one
  character.  \<open>finditer_from pos s\<close> scans the rest \<open>s\<close> of the text that starts at
  offset \<open>pos\<close> and returns the spans \<open>(m.start(), m.end())\<close>.
\<close>

function finditer_from :: "nat \<Rightarrow> ustr \<Rightarrow> (nat \<times> nat) list" where
  "finditer_from pos s =
     (if s = [] then []
      else
        (case word_match s of
           None \<Rightarrow> finditer_from (Suc pos) (tl s)
         | Some n \<Rightarrow> (pos, pos + n) # finditer_from (pos + n) (drop n s)))"
  by pat_completeness auto
termination
  by (relation "measure (\<lambda>(pos, s). length s)")
     (auto simp: word_match_def Let_def split: if_splits)

declare finditer_from.simps [simp del]

definition finditer :: "ustr \<Rightarrow> (nat \<times> nat) list" where
  "finditer text = finditer_from 0 text"

definition slice :: "ustr \<Rightarrow> nat \<Rightarrow> nat \<Rightarrow> ustr" where
  "slice text a b = take (b - a) (drop a text)"

definition findall :: "ustr \<Rightarrow> ustr list" where
  "findall text = map (\<lambda>m. slice text (fst m) (snd m)) (finditer text)"

subsection \<open>Helpers\<close>

definition strip_diacritics :: "unicode_db \<Rightarrow> ustr \<Rightarrow> ustr" where
  "strip_diacritics U text =
     filter (\<lambda>c. \<not> u_mn U c \<or> c \<in> set (cp ''aeiouAEIOU'')) (u_nfd U text)"

definition normalize_token :: "unicode_db \<Rightarrow> tokenizer \<Rightarrow> ustr \<Rightarrow> ustr" where
  "normalize_token U self token =
     (let token = strip_diacritics U token in
      if preserve_case self then token else u_upper U token)"

text \<open>\<open>re.search(r"\d", text)\<close>.\<close>

definition has_digit :: "unicode_db \<Rightarrow> ustr \<Rightarrow> bool" where
  "has_digit U text = list_ex (u_isdecimal U) text"

definition validate_strict_text :: "unicode_db \<Rightarrow> ustr \<Rightarrow> error + unit" where
  "validate_strict_text U text = (if has_digit U text then Inl DigitsNotAllowed else Inr ())"

definition validate_strict_token :: "unicode_db \<Rightarrow> ustr \<Rightarrow> error + unit" where
  "validate_strict_token U token = (if has_digit U token then Inl (InvalidToken token) else Inr ())"

subsection \<open>Word tokenization\<close>

text \<open>The loop of \<open>tokenize\<close> over the matched tokens: the first invalid token raises.\<close>

fun normalize_tokens :: "unicode_db \<Rightarrow> tokenizer \<Rightarrow> ustr list \<Rightarrow> error + ustr list" where
  "normalize_tokens U self [] = Inr []"
| "normalize_tokens U self (t # ts) =
     (case (if strict self then validate_strict_token U t else Inr ()) of
        Inl e \<Rightarrow> Inl e
      | Inr _ \<Rightarrow>
          (case normalize_tokens U self ts of
             Inl e \<Rightarrow> Inl e
           | Inr normalized \<Rightarrow> Inr (normalize_token U self t # normalized)))"

definition tokenize :: "unicode_db \<Rightarrow> tokenizer \<Rightarrow> ustr \<Rightarrow> error + ustr list" where
  "tokenize U self text =
     (if strip text = [] then Inr []
      else
        (case (if strict self then validate_strict_text U text else Inr ()) of
           Inl e \<Rightarrow> Inl e
         | Inr _ \<Rightarrow>
             let tokens = findall text in
             if strict self \<and> tokens = [] then Inl NoValidTokens
             else normalize_tokens U self tokens))"

record token_pos =
  tok_token :: ustr
  tok_start :: nat
  tok_end :: nat
  tok_length :: nat

text \<open>The loop of \<open>tokenize_with_positions\<close> over the matches.\<close>

fun position_records :: "unicode_db \<Rightarrow> tokenizer \<Rightarrow> ustr \<Rightarrow> (nat \<times> nat) list \<Rightarrow> error + token_pos list" where
  "position_records U self text [] = Inr []"
| "position_records U self text (m # ms) =
     (let token = slice text (fst m) (snd m) in
      case (if strict self then validate_strict_token U token else Inr ()) of
        Inl e \<Rightarrow> Inl e
      | Inr _ \<Rightarrow>
          (case position_records U self text ms of
             Inl e \<Rightarrow> Inl e
           | Inr results \<Rightarrow>
               Inr (\<lparr> tok_token = normalize_token U self token,
                      tok_start = fst m, tok_end = snd m,
                      tok_length = snd m - fst m \<rparr> # results)))"

definition tokenize_with_positions :: "unicode_db \<Rightarrow> tokenizer \<Rightarrow> ustr \<Rightarrow> error + token_pos list" where
  "tokenize_with_positions U self text =
     (case (if strict self then validate_strict_text U text else Inr ()) of
        Inl e \<Rightarrow> Inl e
      | Inr _ \<Rightarrow> position_records U self text (finditer text))"

subsection \<open>Sentence tokenization\<close>

text \<open>
  \<open>str.replace(old, new)\<close>: every occurrence of \<open>old\<close>, from left to right, without
  overlap.  (For an empty \<open>old\<close> Python puts \<open>new\<close> before every character and at the
  end.)
\<close>

function replace_ne :: "ustr \<Rightarrow> ustr \<Rightarrow> ustr \<Rightarrow> ustr" where
  "replace_ne old new s =
     (if s = [] \<or> old = [] then s
      else if startswith s old then new @ replace_ne old new (drop (length old) s)
      else hd s # replace_ne old new (tl s))"
  by pat_completeness auto
termination
  by (relation "measure (\<lambda>(old, new, s). length s)") auto

declare replace_ne.simps [simp del]

definition replace :: "ustr \<Rightarrow> ustr \<Rightarrow> ustr \<Rightarrow> ustr" where
  "replace old new s =
     (if old = [] then new @ concat (map (\<lambda>c. c # new) s) else replace_ne old new s)"

text \<open>
  \<open>re.split(r"(?<=[.!?])\s+", s)\<close>: a separator is a maximal run of whitespace whose
  first character stands right after a period, exclamation mark or question mark.
  \<open>split_scan prev cur s\<close> reads \<open>s\<close> with \<open>prev\<close> the character before it and \<open>cur\<close>
  the piece read so far; \<open>split_skip\<close> reads the rest of a separator.
\<close>

fun split_scan :: "nat option \<Rightarrow> ustr \<Rightarrow> ustr \<Rightarrow> ustr list"
  and split_skip :: "ustr \<Rightarrow> ustr list" where
  "split_scan prev cur [] = [cur]"
| "split_scan prev cur (c # r) =
     (if py_isspace c \<and> (prev = Some 46 \<or> prev = Some 33 \<or> prev = Some 63)
      then cur # split_skip r
      else split_scan (Some c) (cur @ [c]) r)"
| "split_skip [] = [[]]"
| "split_skip (c # r) =
     (if py_isspace c then split_skip r else split_scan (Some c) [c] r)"

definition split_sentences :: "ustr \<Rightarrow> ustr list" where
  "split_sentences s = split_scan None [] s"

text \<open>
  \<open>_abbreviations\<close> is a set; the loop below visits it in the order of the literal.
  (Whatever the order, replacing one abbreviation neither creates nor destroys an
  occurrence of another: each ends in its only period, and \<open><DOT>\<close> ends in the character \<open>>\<close>.)
\<close>

definition abbreviations :: "ustr list" where
  "abbreviations = map cp [''DR.'', ''PROF.'', ''MR.'', ''MRS.'', ''MS.'']"

definition protect :: "unicode_db \<Rightarrow> tokenizer \<Rightarrow> ustr \<Rightarrow> ustr" where
  "protect U self processed =
     fold (\<lambda>abbr protected.
             replace (if preserve_case self then abbr else u_upper U abbr)
                     (replace (cp ''.'') (cp ''<DOT>'') abbr) protected)
          abbreviations processed"

definition sentence_tokenize :: "unicode_db \<Rightarrow> tokenizer \<Rightarrow> ustr \<Rightarrow> error + ustr list" where
  "sentence_tokenize U self text =
     (if strip text = [] then Inr []
      else
        (case (if strict self then validate_strict_text U text else Inr ()) of
           Inl e \<Rightarrow> Inl e
         | Inr _ \<Rightarrow>
             let processed = strip_diacritics U text;
                 processed = (if preserve_case self then processed else u_upper U processed);
                 protected = protect U self processed;
                 parts = split_sentences protected
             in Inr (filter (\<lambda>p. p \<noteq> [])
                       (map (\<lambda>p. strip (replace (cp ''<DOT>'') (cp ''.'') p)) parts))))"

section \<open>The normalizer (normalizer.py)\<close>

record normalizer =
  n_normalize_case :: bool
  n_preserve_case :: bool
  n_remove_diacritics :: bool
  n_remove_numbers :: bool
  n_remove_punctuation :: bool
  n_remove_special_chars :: bool
  n_standardize_punctuation :: bool
  n_remove_extra_spaces :: bool












text \<open>
  Text over ASCII and the ten accented vowels of \<open>DIACRITICS\<close>, and what the Unicode
  tables do on such text: it is in normal form C; ASCII text is also in normal form D,
  has no combining characters, is upper-cased letter by letter, and its digits and word
  characters are the ASCII ones.
\<close>

definition is_ascii :: "ustr \<Rightarrow> bool" where
  "is_ascii s = list_all (\<lambda>c. c < 128) s"


definition ascii_digit :: "nat \<Rightarrow> bool" where
  "ascii_digit c = (48 \<le> c \<and> c \<le> 57)"

definition ascii_wordy :: "nat \<Rightarrow> bool" where
  "ascii_wordy c = ((48 \<le> c \<and> c \<le> 57) \<or> (65 \<le> c \<and> c \<le> 90) \<or> c = 95 \<or> (97 \<le> c \<and> c \<le> 122))"


text \<open>Steps 5 to 9 on ASCII text, character by character.\<close>

definition hyph :: "normalizer \<Rightarrow> nat \<Rightarrow> nat" where
  "hyph self c = (if n_remove_special_chars self \<and> c = 45 then 32 else c)"

definition casing :: "normalizer \<Rightarrow> nat \<Rightarrow> nat" where
  "casing self c = (if n_normalize_case self \<and> \<not> n_preserve_case self then ascii_upper c else c)"

definition special_ok :: "nat \<Rightarrow> bool" where
  "special_ok c = (ascii_wordy c \<or> py_isspace c \<or> c = 39)"

definition kept :: "normalizer \<Rightarrow> nat \<Rightarrow> bool" where
  "kept self c =
     (\<not> (n_remove_numbers self \<and> ascii_digit c)
      \<and> \<not> (n_remove_punctuation self \<and> c \<in> set (cp ''.,!?;:''))
      \<and> \<not> (n_remove_special_chars self \<and> \<not> special_ok (hyph self c)))"

definition ch :: "normalizer \<Rightarrow> nat \<Rightarrow> ustr" where
  "ch self c = (if kept self c then [casing self (hyph self c)] else [])"






text \<open>
  A fact of the Unicode tables that two statements below need of the parameter: no
  decimal digit (category Nd) is a whitespace character.
\<close>

definition digits_not_space :: "unicode_db \<Rightarrow> bool" where
  "digits_not_space U = (\<forall>c. \<not> (u_isdecimal U c \<and> py_isspace c))"

text \<open>
  Three tokenizers: the constructor's defaults, strict mode, and case preservation.
\<close>

definition default_tokenizer :: tokenizer where
  "default_tokenizer = \<lparr>preserve_case = False, strict = False\<rparr>"

definition strict_tokenizer :: tokenizer where
  "strict_tokenizer = \<lparr>preserve_case = False, strict = True\<rparr>"

definition case_preserving_tokenizer :: tokenizer where
  "case_preserving_tokenizer = \<lparr>preserve_case = True, strict = False\<rparr>"

section \<open>Properties\<close>

text \<open>
  Literals are handled in two ways: \<open>cp_eval\<close> turns them into code points (for the
  functions that compute on characters), \<open>cp_eq_iff\<close> compares two literals as they are
  (for table lookups).
\<close>

lemma cp_Nil: "cp [] = []"
  by (simp add: cp_def)

lemma cp_Cons: "cp (c # s) = of_char c # cp s"
  by (simp add: cp_def)

lemmas cp_eval = cp_Nil cp_Cons

lemma cp_eq_iff: "cp a = cp b \<longleftrightarrow> a = b"
  by (simp add: cp_def inj_map_eq_map inj_on_def)

lemma cp_eq_Nil_iff: "cp a = [] \<longleftrightarrow> a = []" "[] = cp a \<longleftrightarrow> a = []"
  by (auto simp: cp_def)

lemma length_cp: "length (cp s) = length s"
  by (simp add: cp_def)

subsection \<open>Stop words\<close>

text \<open>
  Claim C9.  For every token list, every stop-word set and either setting of the
  variant flag, no token returned by \<open>remove_stopwords\<close> is a stop word under
  \<open>is_stopword\<close> with the same flag, and the returned tokens are a subsequence of the
  input: they keep their relative order.
\<close>

theorem remove_stopwords_sound:
  "(\<forall>t \<in> set (remove_stopwords U stopwords tokens flag). \<not> is_stopword U stopwords t flag)
   \<and> subseq (remove_stopwords U stopwords tokens flag) tokens"
  by (simp add: remove_stopwords_def)

theorem remove_stopwords_sound_witness:
  "remove_stopwords ascii_db (StopWords_init True) [cp ''mana'', cp ''ani'', cp ''isati'', cp ''guddaa''] True
     = [cp ''mana'', cp ''guddaa'']
   \<and> \<not> is_stopword ascii_db (StopWords_init True) (cp ''mana'') True
   \<and> \<not> is_stopword ascii_db (StopWords_init True) (cp ''guddaa'') True
   \<and> subseq [cp ''mana'', cp ''guddaa''] [cp ''mana'', cp ''ani'', cp ''isati'', cp ''guddaa'']"
proof -
  have r: "remove_stopwords ascii_db (StopWords_init True)
             [cp ''mana'', cp ''ani'', cp ''isati'', cp ''guddaa''] True
           = [cp ''mana'', cp ''guddaa'']"
    by (simp add: remove_stopwords_def is_stopword_def get_variants_def variant_suffixes_def
        endswith_def StopWords_init_def load_default_stopwords_def categories_def
        ascii_db_def ascii_upper_def acute_vowels_def cp_eval Let_def)
  from remove_stopwords_sound [of ascii_db "StopWords_init True"
      "[cp ''mana'', cp ''ani'', cp ''isati'', cp ''guddaa'']" True]
  show ?thesis
    unfolding r by simp
qed

subsection \<open>The stemmer\<close>

lemma sorted_suffixes_eval:
  "sorted_suffixes =
     map (\<lambda>s. (cp s, []))
       [''KEESSATTI'', ''KOOTTI'', ''KOOTA'', ''TOOTA'', ''NEENI'', ''ACHUU'', ''ICHAA'',
        ''UMMAA'', ''OOTA'', ''ETTI'', ''ANII'', ''ITAN'', ''ATAN'', ''WWAN'', ''ICHA'',
        ''TIIN'', ''OTA'', ''ANI'', ''DHA'', ''KEE'', ''SAA'', ''TTI'', ''TII'', ''INA'',
        ''UU'', ''TA'', ''SA'', ''AA'', ''OO'', ''I'']"
  by (simp add: sorted_suffixes_def suffixes_def cp_eval)

lemma stem_isaa: "stem ascii_db (cp ''isaa'') = cp ''ISAA''"
  by (simp add: stem_def normalize_diacritics_def DIACRITICS_def irregular_forms_def
      ascii_db_def ascii_upper_def acute_vowels_def cp_eval sorted_suffixes_eval suffix_applies_def
      strip_suffix_def endswith_def)

lemma find_sorted_least:
  "sorted (map f l) \<Longrightarrow> find P l = Some y \<Longrightarrow> x \<in> set l \<Longrightarrow> P x \<Longrightarrow> f y \<le> f x"
  by (induction l) (auto split: if_splits)

lemma find_Some_mem: "find P l = Some y \<Longrightarrow> P y \<and> y \<in> set l"
  by (induction l) (auto split: if_splits)

lemma find_sort_key_least:
  assumes "find P (sort_key f xs) = Some y"
  shows "P y" and "y \<in> set xs" and "\<And>x. x \<in> set xs \<Longrightarrow> P x \<Longrightarrow> f y \<le> f x"
proof -
  from find_Some_mem [OF assms] show "P y" and "y \<in> set xs" by simp_all
  fix x assume "x \<in> set xs" "P x"
  then show "f y \<le> f x"
    using find_sorted_least [of f "sort_key f xs" P y x] assms by simp
qed

lemma irregular_matching:
  "list_all (\<lambda>k. length (remdups (map (\<lambda>e. length (fst e)) (filter (\<lambda>e. endswith k (fst e)) suffixes))) \<le> 1)
     (map fst irregular_forms)"
  by (simp add: irregular_forms_def suffixes_def endswith_def cp_eval)

lemma suffixes_nonempty: "e \<in> set suffixes \<Longrightarrow> fst e \<noteq> []"
  by (auto simp: suffixes_def cp_eval)

lemma irregular_one_length:
  assumes "map_of irregular_forms w = Some root"
    and "e1 \<in> set suffixes" "e2 \<in> set suffixes"
    and "endswith w (fst e1)" "endswith w (fst e2)"
  shows "length (fst e1) = length (fst e2)"
proof -
  let ?ls = "map (\<lambda>e. length (fst e)) (filter (\<lambda>e. endswith w (fst e)) suffixes)"
  from assms(1) have "w \<in> set (map fst irregular_forms)"
    by (metis map_of_SomeD set_zip_leftD zip_map_fst_snd)
  with irregular_matching have le: "length (remdups ?ls) \<le> 1"
    unfolding list_all_iff by blast
  have m1: "length (fst e1) \<in> set ?ls" and m2: "length (fst e2) \<in> set ?ls"
    using assms(2-5) by auto
  from le obtain a where r: "remdups ?ls = [] \<or> remdups ?ls = [a]"
    by (cases "remdups ?ls") (auto simp: length_Suc_conv)
  have "set (remdups ?ls) \<subseteq> {a}"
    using r by (rule disjE) (simp_all only: list.set, auto)
  then have "set ?ls \<subseteq> {a}" by simp
  with m1 m2 show ?thesis by blast
qed

text \<open>
  Claim C8.  The irregular-form table is consulted first and ends the call: whenever the
  upper-cased, diacritic-folded word is a key of the table, \<open>stem\<close> returns the table's
  root, whatever the suffix table holds; and \<open>stem("dhufan") = "DHUF"\<close>.
\<close>

theorem stem_irregular:
  "(map_of irregular_forms (normalize_diacritics (u_upper U word)) = Some root \<longrightarrow> stem U word = root)
   \<and> stem ascii_db (cp ''dhufan'') = cp ''DHUF''"
  by (simp add: stem_def normalize_diacritics_def DIACRITICS_def irregular_forms_def
      ascii_db_def ascii_upper_def acute_vowels_def cp_eval)

theorem stem_irregular_witness:
  "map_of irregular_forms (normalize_diacritics (u_upper ascii_db (cp ''argatan''))) = Some (cp ''ARGAT'')
   \<and> endswith (normalize_diacritics (u_upper ascii_db (cp ''argatan''))) (cp ''ATAN'')
   \<and> stem ascii_db (cp ''argatan'') = cp ''ARGAT''"
proof -
  have k: "map_of irregular_forms (normalize_diacritics (u_upper ascii_db (cp ''argatan''))) = Some (cp ''ARGAT'')"
    by (simp add: normalize_diacritics_def DIACRITICS_def irregular_forms_def
        ascii_db_def ascii_upper_def acute_vowels_def cp_eval)
  have e: "endswith (normalize_diacritics (u_upper ascii_db (cp ''argatan''))) (cp ''ATAN'')"
    by (simp add: normalize_diacritics_def DIACRITICS_def endswith_def
        ascii_db_def ascii_upper_def acute_vowels_def cp_eval)
  from stem_irregular [of ascii_db "cp ''argatan''" "cp ''ARGAT''"] k e
  show ?thesis by blast
qed

text \<open>
  Claim C6, as the code has it.  Let \<open>w\<close> be the upper-cased, diacritic-folded word.
  If two suffixes of the table of different lengths end \<open>w\<close>, each shorter than \<open>w\<close>,
  then the suffix that \<open>stem\<close> selects is the longest suffix of the table that ends
  \<open>w\<close> and is shorter than it; \<open>stem\<close> returns \<open>w\<close> without that suffix, unless fewer
  than two characters would be left, in which case it returns \<open>w\<close> unchanged.  In
  neither case is the result \<open>w\<close> without the shorter suffix.
\<close>

theorem stem_longest_suffix:
  assumes w: "w = normalize_diacritics (u_upper U word)"
    and s1: "(s1, r1) \<in> set suffixes" and s2: "(s2, r2) \<in> set suffixes"
    and e1: "endswith w s1" and e2: "endswith w s2"
    and lt: "length s1 < length s2" and ne: "length s2 < length w"
  shows "(\<exists>s. (s, []) \<in> set suffixes \<and> endswith w s \<and> length s < length w \<and> length s2 \<le> length s
            \<and> (\<forall>e \<in> set suffixes. endswith w (fst e) \<and> length (fst e) < length w \<longrightarrow> length (fst e) \<le> length s)
            \<and> stem U word = (if length w - length s < 2 then w else take (length w - length s) w))
         \<and> stem U word \<noteq> take (length w - length s1) w"
proof -
  have irr: "map_of irregular_forms w = None"
  proof (cases "map_of irregular_forms w")
    case (Some root)
    from irregular_one_length [OF Some s1 s2] e1 e2 lt show ?thesis by simp
  qed simp
  have app2: "suffix_applies w (s2, r2)"
    using e2 ne by (simp add: suffix_applies_def)
  obtain e where f: "find (suffix_applies w) sorted_suffixes = Some e"
    using app2 s2 by (cases "find (suffix_applies w) sorted_suffixes")
      (auto simp: find_None_iff sorted_suffixes_def)
  note L = find_sort_key_least [OF f [unfolded sorted_suffixes_def]]
  have ee: "endswith w (fst e)" "length (fst e) < length w"
    using L(1) by (simp_all add: suffix_applies_def)
  have snd_e: "snd e = []"
    using L(2) by (auto simp: suffixes_def cp_eval)
  have ge: "\<And>x. x \<in> set suffixes \<Longrightarrow> endswith w (fst x) \<and> length (fst x) < length w
              \<Longrightarrow> length (fst x) \<le> length (fst e)"
    using L(3) by (fastforce simp: suffix_applies_def)
  have ge2: "length s2 \<le> length (fst e)"
    using ge [OF s2] e2 ne by simp
  have st: "stem U word = (if length w - length (fst e) < 2 then w else take (length w - length (fst e)) w)"
    using irr f ee snd_e by (simp add: stem_def w [symmetric] strip_suffix_def Let_def)
  have mem: "(fst e, []) \<in> set suffixes"
    using L(2) snd_e by (metis prod.collapse)
  have pos: "0 < length s1" using suffixes_nonempty [OF s1] by simp
  have neq: "stem U word \<noteq> take (length w - length s1) w"
  proof
    assume "stem U word = take (length w - length s1) w"
    then have l: "length (stem U word) = length w - length s1" by simp
    have a: "length w - length s1 < length w" using pos lt ne by linarith
    have b: "length w - length (fst e) < length w - length s1" using lt ge2 ee(2) by linarith
    have "length (stem U word) = length w \<or> length (stem U word) = length w - length (fst e)"
      using st by (auto split: if_splits)
    with l a b show False by linarith
  qed
  show ?thesis
    using mem ee ge2 ge st neq by blast
qed

theorem stem_longest_suffix_witness:
  "(cp ''I'', []) \<in> set suffixes \<and> (cp ''ANII'', []) \<in> set suffixes
   \<and> endswith (cp ''BEEKANII'') (cp ''I'') \<and> endswith (cp ''BEEKANII'') (cp ''ANII'')
   \<and> stem ascii_db (cp ''beekanii'') \<noteq> cp ''BEEKANI''
   \<and> stem ascii_db (cp ''beekanii'') = cp ''BEEK''"
proof -
  have w: "cp ''BEEKANII'' = normalize_diacritics (u_upper ascii_db (cp ''beekanii''))"
    by (simp add: normalize_diacritics_def DIACRITICS_def ascii_db_def ascii_upper_def acute_vowels_def cp_eval)
  have s1: "(cp ''I'', []) \<in> set suffixes" and s2: "(cp ''ANII'', []) \<in> set suffixes"
    by (simp_all add: suffixes_def cp_eval)
  have e1: "endswith (cp ''BEEKANII'') (cp ''I'')" and e2: "endswith (cp ''BEEKANII'') (cp ''ANII'')"
    by (simp_all add: endswith_def cp_eval)
  have "stem ascii_db (cp ''beekanii'') \<noteq> take (length (cp ''BEEKANII'') - length (cp ''I'')) (cp ''BEEKANII'')"
    using stem_longest_suffix [OF w s1 s2 e1 e2] by (simp add: length_cp)
  then have n: "stem ascii_db (cp ''beekanii'') \<noteq> cp ''BEEKANI''" by (simp add: cp_eval)
  have v: "stem ascii_db (cp ''beekanii'') = cp ''BEEK''"
    by (simp add: stem_def normalize_diacritics_def DIACRITICS_def irregular_forms_def
        ascii_db_def ascii_upper_def acute_vowels_def cp_eval sorted_suffixes_eval suffix_applies_def
        strip_suffix_def endswith_def)
  from s1 s2 e1 e2 n v show ?thesis by blast
qed

text \<open>
  The claim as written fails where the minimum-length guard applies: \<open>"isaa"\<close> ends in
  \<open>SAA\<close> and in \<open>AA\<close>, each leaving a non-empty rest, and \<open>stem\<close> returns \<open>"ISAA"\<close>:
  the longer suffix is not stripped (that would be \<open>"I"\<close>).
\<close>

theorem stem_longer_suffix_counterexample:
  "(cp ''AA'', []) \<in> set suffixes \<and> (cp ''SAA'', []) \<in> set suffixes
   \<and> normalize_diacritics (u_upper ascii_db (cp ''isaa'')) = cp ''ISAA''
   \<and> endswith (cp ''ISAA'') (cp ''AA'') \<and> endswith (cp ''ISAA'') (cp ''SAA'')
   \<and> length (cp ''AA'') < length (cp ''SAA'') \<and> length (cp ''SAA'') < length (cp ''ISAA'')
   \<and> take (length (cp ''ISAA'') - length (cp ''SAA'')) (cp ''ISAA'') = cp ''I''
   \<and> stem ascii_db (cp ''isaa'') = cp ''ISAA''
   \<and> stem ascii_db (cp ''isaa'') \<noteq> cp ''I''"
  by (simp add: stem_def normalize_diacritics_def DIACRITICS_def irregular_forms_def
      ascii_db_def ascii_upper_def acute_vowels_def cp_eval sorted_suffixes_eval suffix_applies_def
      strip_suffix_def endswith_def suffixes_def)

subsection \<open>The part-of-speech tagger\<close>

lemma verb_universal_all: "list_all (\<lambda>e. map_to_universal (snd e) = cp ''VERB'') VERB_SUFFIXES"
  by (simp add: VERB_SUFFIXES_def map_to_universal_def get_universal_tag_def POS_TAGSET_def cp_eq_iff cp_eq_Nil_iff)

lemma noun_universal_all: "list_all (\<lambda>e. map_to_universal (snd e) = cp ''NOUN'') NOUN_SUFFIXES"
  by (simp add: NOUN_SUFFIXES_def map_to_universal_def get_universal_tag_def POS_TAGSET_def cp_eq_iff cp_eq_Nil_iff)

lemma verb_universal: "e \<in> set VERB_SUFFIXES \<Longrightarrow> map_to_universal (snd e) = cp ''VERB''"
  using verb_universal_all unfolding list_all_iff by blast

lemma noun_universal: "e \<in> set NOUN_SUFFIXES \<Longrightarrow> map_to_universal (snd e) = cp ''NOUN''"
  using noun_universal_all unfolding list_all_iff by blast

lemma suffix_rule_const:
  assumes "\<And>e. e \<in> set table \<Longrightarrow> map_to_universal (snd e) = u"
  shows "suffix_rule table t = (if \<exists>e \<in> set table. endswith t (fst e) then Some u else None)"
proof (cases "find (\<lambda>entry. endswith t (fst entry)) table")
  case None
  then have "\<not> (\<exists>e \<in> set table. endswith t (fst e))"
    by (auto simp: find_None_iff)
  with None show ?thesis by (simp add: suffix_rule_def first_match_def)
next
  case (Some e)
  from find_Some_mem [OF Some] assms [of e] Some show ?thesis
    by (auto simp: suffix_rule_def first_match_def)
qed

lemmas suffix_rule_verb = suffix_rule_const [of VERB_SUFFIXES, OF verb_universal]
lemmas suffix_rule_noun = suffix_rule_const [of NOUN_SUFFIXES, OF noun_universal]

lemma lexicon_tags: "map_of LEXICON t = Some tg \<Longrightarrow> tg \<in> {cp ''ADJ'', cp ''NOUN'', cp ''PRON''}"
  by (drule map_of_SomeD) (auto simp: LEXICON_def)

lemma conj_in_prepositions: "set [cp ''fi'', cp ''yookiin''] \<subseteq> set PREPOSITIONS"
  by (simp add: PREPOSITIONS_def)

lemma closed_class_not_conj: "closed_class_rules U t = Some tg \<Longrightarrow> tg \<noteq> cp ''CONJ''"
  using conj_in_prepositions
  by (auto simp: closed_class_rules_def NUM_TAG_def PUNC_TAG_def cp_eq_iff
      split: option.splits if_splits dest!: lexicon_tags)

lemma tag_token_not_conj: "tag_token U token \<noteq> cp ''CONJ''"
  by (auto simp: tag_token_def Let_def suffix_rule_verb suffix_rule_noun orthographic_rules_def
      DEFAULT_TAG_def cp_eq_iff split: option.splits if_splits dest: closed_class_not_conj)

text \<open>Evaluations of the tagger on two tokens.\<close>

lemma strip_fi: "strip (cp ''fi'') = cp ''fi''"
  by (simp add: strip_def py_isspace_def cp_eval)

lemma lower_fi: "u_lower ascii_db (cp ''fi'') = cp ''fi''"
   by (simp add: ascii_db_def ascii_lower_def acute_vowels_def cp_eval)

lemma cc_fi: "closed_class_rules ascii_db (cp ''fi'') = Some (cp ''ADP'')"
  by (simp add: closed_class_rules_def LEXICON_def
      afaan_oromoo_numbers_def is_number_def punctuation_def PREPOSITIONS_def ascii_db_def
      cp_eval Let_def)
lemma tag_token_fi: "tag_token ascii_db (cp ''fi'') = cp ''ADP''"
  by (simp add: tag_token_def strip_fi lower_fi cc_fi cp_eq_Nil_iff)

lemma strip_yookiin: "strip (cp ''yookiin'') = cp ''yookiin''"
  by (simp add: strip_def py_isspace_def cp_eval)

lemma lower_yookiin: "u_lower ascii_db (cp ''yookiin'') = cp ''yookiin''"
   by (simp add: ascii_db_def ascii_lower_def acute_vowels_def cp_eval)

lemma cc_yookiin: "closed_class_rules ascii_db (cp ''yookiin'') = Some (cp ''ADP'')"
  by (simp add: closed_class_rules_def LEXICON_def
      afaan_oromoo_numbers_def is_number_def punctuation_def PREPOSITIONS_def ascii_db_def
      cp_eval Let_def)

lemma tag_token_yookiin: "tag_token ascii_db (cp ''yookiin'') = cp ''ADP''"
  by (simp add: tag_token_def strip_yookiin lower_yookiin cc_yookiin cp_eq_Nil_iff)

text \<open>
  Claim C10.  \<open>tag\<close> never returns \<open>"CONJ"\<close>: the two words of the conjunction rule are
  both members of \<open>PREPOSITIONS\<close>, which the earlier rule tests, and no other rule
  returns that tag.
\<close>

theorem tag_never_conj:
  "cp ''CONJ'' \<notin> set (tag U tokens) \<and> set [cp ''fi'', cp ''yookiin''] \<subseteq> set PREPOSITIONS"
proof -
  have "cp ''CONJ'' \<noteq> tag_token U x" for x
    using tag_token_not_conj [of U x] by simp
  then have "cp ''CONJ'' \<notin> set (tag U tokens)"
    by (auto simp: tag_def)
  with conj_in_prepositions show ?thesis by simp
qed

theorem tag_never_conj_witness:
  "tag ascii_db [cp ''fi'', cp ''yookiin''] = [cp ''ADP'', cp ''ADP'']
   \<and> cp ''CONJ'' \<notin> set (tag ascii_db [cp ''fi'', cp ''yookiin''])"
proof -
  have t: "tag ascii_db [cp ''fi'', cp ''yookiin''] = [cp ''ADP'', cp ''ADP'']"
    by (simp add: tag_def tag_token_fi tag_token_yookiin)
  from tag_never_conj [of ascii_db "[cp ''fi'', cp ''yookiin'']"] t show ?thesis by blast
qed

















subsection \<open>The tokenizer\<close>

lemma all_dropWhile_iff: "(\<forall>x \<in> set (dropWhile P s). P x) \<longleftrightarrow> (\<forall>x \<in> set s. P x)"
proof
  assume a: "\<forall>x \<in> set (dropWhile P s). P x"
  have "dropWhile P s = []"
  proof (rule ccontr)
    assume n: "dropWhile P s \<noteq> []"
    then have "\<not> P (hd (dropWhile P s))" by (rule hd_dropWhile)
    moreover have "hd (dropWhile P s) \<in> set (dropWhile P s)" using n by simp
    ultimately show False using a by blast
  qed
  then show "\<forall>x \<in> set s. P x" by (simp only: dropWhile_eq_Nil_conv)
next
  assume "\<forall>x \<in> set s. P x"
  then show "\<forall>x \<in> set (dropWhile P s). P x" by (auto dest: set_dropWhileD)
qed

lemma strip_empty_iff: "strip s = [] \<longleftrightarrow> list_all py_isspace s"
  by (simp add: strip_def all_dropWhile_iff list_all_iff)


lemma match_groups_Nil: "match_groups [] = 0"
  by (subst match_groups.simps) simp

lemma match_groups_single: "match_groups [c] = 0"
  by (subst match_groups.simps) simp

lemma match_groups_Cons2:
  "match_groups (c # d # r) =
     (if (c = 39 \<or> c = 45) \<and> is_pattern_letter d
      then 2 + length (takeWhile is_pattern_letter r) + match_groups (dropWhile is_pattern_letter r)
      else 0)"
  by (subst match_groups.simps) simp

lemmas match_groups_eval = match_groups_Nil match_groups_single match_groups_Cons2

lemma finditer_from_Nil: "finditer_from pos [] = []"
  by (subst finditer_from.simps) simp

lemma finditer_from_Cons:
  "finditer_from pos (c # s) =
     (case word_match (c # s) of
        None \<Rightarrow> finditer_from (Suc pos) s
      | Some n \<Rightarrow> (pos, pos + n) # finditer_from (pos + n) (drop n (c # s)))"
  by (subst finditer_from.simps) (simp split: option.splits)

lemmas finditer_from_eval = finditer_from_Nil finditer_from_Cons











lemma findall_Nil_iff: "findall text = [] \<longleftrightarrow> finditer text = []"
  by (simp add: findall_def)


lemma positions_unfold:
  "tokenize_with_positions U self text =
     (if strict self \<and> has_digit U text then Inl DigitsNotAllowed
      else position_records U self text (finditer text))"
  by (simp add: tokenize_with_positions_def validate_strict_text_def)

lemma position_records_Nil: "position_records U self text ms = Inr [] \<longleftrightarrow> ms = []"
  by (cases ms) (auto simp: Let_def split: sum.splits if_splits)


lemma blank_no_digit:
  "digits_not_space U \<Longrightarrow> strip text = [] \<Longrightarrow> \<not> has_digit U text"
  by (auto simp: digits_not_space_def strip_empty_iff has_digit_def list_all_iff list_ex_iff)

lemma tokenize_blank: "strip text = [] \<Longrightarrow> tokenize U self text = Inr []"
  by (simp add: tokenize_def)

lemma tokenize_digits:
  "strip text \<noteq> [] \<Longrightarrow> strict self \<Longrightarrow> has_digit U text \<Longrightarrow> tokenize U self text = Inl DigitsNotAllowed"
  by (simp add: tokenize_def validate_strict_text_def)

lemma tokenize_no_tokens:
  "strip text \<noteq> [] \<Longrightarrow> strict self \<Longrightarrow> \<not> has_digit U text \<Longrightarrow> finditer text = []
   \<Longrightarrow> tokenize U self text = Inl NoValidTokens"
  by (simp add: tokenize_def validate_strict_text_def findall_def)





text \<open>Evaluations of the tokenizer on concrete texts.\<close>

lemmas scan_eval = finditer_def finditer_from_eval word_match_def match_groups_eval
  is_pattern_letter_def slice_def cp_eval Let_def

lemmas ascii_eval = ascii_db_def ascii_upper_def ascii_lower_def acute_vowels_def
  decompose_acute_def

lemma ascii_digits_not_space: "digits_not_space ascii_db"
  by (auto simp: digits_not_space_def ascii_db_def py_isspace_def)

lemma replace_ne_Nil: "replace_ne old new [] = []"
  by (subst replace_ne.simps) simp

lemma replace_ne_Cons:
  "old \<noteq> [] \<Longrightarrow> replace_ne old new (c # s) =
     (if startswith (c # s) old then new @ replace_ne old new (drop (length old) (c # s))
      else c # replace_ne old new s)"
  by (subst replace_ne.simps) simp

lemmas replace_eval = replace_def replace_ne_Nil replace_ne_Cons startswith_def

lemma abbr_marks:
  "map (\<lambda>abbr. replace (cp ''.'') (cp ''<DOT>'') abbr) abbreviations =
     map cp [''DR<DOT>'', ''PROF<DOT>'', ''MR<DOT>'', ''MRS<DOT>'', ''MS<DOT>'']"
  by (simp add: abbreviations_def replace_eval cp_eval)

lemma protect_pc: "protect ascii_db \<lparr>preserve_case = True, strict = False\<rparr> (cp ''Dr. Abebe.'') = cp ''Dr. Abebe.''"
  by (simp add: protect_def abbreviations_def replace_eval cp_eval)

lemma protect_default: "protect ascii_db \<lparr>preserve_case = False, strict = False\<rparr> (cp ''DR. ABEBE.'') = cp ''DR<DOT> ABEBE.''"
  by (simp add: protect_def abbreviations_def replace_eval cp_eval ascii_eval)

lemma split1: "split_sentences (cp ''Dr. Abebe.'') = [cp ''Dr.'', cp ''Abebe.'']"
  by (simp add: split_sentences_def py_isspace_def cp_eval)

lemma split2: "split_sentences (cp ''DR<DOT> ABEBE.'') = [cp ''DR<DOT> ABEBE.'']"
  by (simp add: split_sentences_def py_isspace_def cp_eval)

lemma sentence_keep_case:
  "sentence_tokenize ascii_db case_preserving_tokenizer (cp ''Dr. Abebe.'') = Inr [cp ''Dr.'', cp ''Abebe.'']"
proof -
  have 1: "strip (cp ''Dr. Abebe.'') \<noteq> []"
    by (simp add: strip_def py_isspace_def cp_eval)
  have 2: "strip_diacritics ascii_db (cp ''Dr. Abebe.'') = cp ''Dr. Abebe.''"
    by (simp add: strip_diacritics_def ascii_eval cp_eval)
  have 3: "protect ascii_db case_preserving_tokenizer (cp ''Dr. Abebe.'') = cp ''Dr. Abebe.''"
    by (simp add: case_preserving_tokenizer_def protect_def abbreviations_def replace_eval cp_eval)
  have 4: "split_sentences (cp ''Dr. Abebe.'') = [cp ''Dr.'', cp ''Abebe.'']"
    by (simp add: split_sentences_def py_isspace_def cp_eval)
  have 5: "strip (replace (cp ''<DOT>'') (cp ''.'') (cp ''Dr.'')) = cp ''Dr.''"
    "strip (replace (cp ''<DOT>'') (cp ''.'') (cp ''Abebe.'')) = cp ''Abebe.''"
    by (simp_all add: replace_eval strip_def py_isspace_def cp_eval)
  have 6: "preserve_case case_preserving_tokenizer" "\<not> strict case_preserving_tokenizer"
    by (simp_all add: case_preserving_tokenizer_def)
  show ?thesis
    by (simp add: sentence_tokenize_def 1 2 3 4 5 6 cp_eq_Nil_iff)
qed

lemma sentence_default:
  "sentence_tokenize ascii_db default_tokenizer (cp ''Dr. Abebe.'') = Inr [cp ''DR. ABEBE.'']"
proof -
  have 1: "strip (cp ''Dr. Abebe.'') \<noteq> []"
    by (simp add: strip_def py_isspace_def cp_eval)
  have 2: "u_upper ascii_db (strip_diacritics ascii_db (cp ''Dr. Abebe.'')) = cp ''DR. ABEBE.''"
    by (simp add: strip_diacritics_def ascii_eval cp_eval)
  have 3: "protect ascii_db default_tokenizer (cp ''DR. ABEBE.'') = cp ''DR<DOT> ABEBE.''"
    by (simp add: default_tokenizer_def protect_def abbreviations_def replace_eval cp_eval ascii_eval)
  have 4: "split_sentences (cp ''DR<DOT> ABEBE.'') = [cp ''DR<DOT> ABEBE.'']"
    by (simp add: split_sentences_def py_isspace_def cp_eval)
  have 5: "strip (replace (cp ''<DOT>'') (cp ''.'') (cp ''DR<DOT> ABEBE.'')) = cp ''DR. ABEBE.''"
    by (simp add: replace_eval strip_def py_isspace_def cp_eval)
  have 6: "\<not> preserve_case default_tokenizer" "\<not> strict default_tokenizer"
    by (simp_all add: default_tokenizer_def)
  show ?thesis
    by (simp add: sentence_tokenize_def 1 2 3 4 5 6 cp_eq_Nil_iff)
qed




lemma strict_hello: "has_digit ascii_db (cp ''Hello 123'')"
  by (simp add: has_digit_def ascii_db_def cp_eval)

lemma strict_bang:
  "\<not> has_digit ascii_db (cp ''!!'')" "findall (cp ''!!'') = []" "strip (cp ''!!'') \<noteq> []"
  by (simp_all add: has_digit_def ascii_db_def findall_def scan_eval strip_def py_isspace_def)

lemma strict_blank:
  "\<not> has_digit ascii_db (cp '' '')" "findall (cp '' '') = []"
  "tokenize ascii_db strict_tokenizer (cp '' '') = Inr []"
  by (simp_all add: has_digit_def ascii_db_def findall_def scan_eval strip_def py_isspace_def tokenize_def)

lemma strict_empty:
  "\<not> has_digit ascii_db []" "findall [] = []"
  "tokenize ascii_db strict_tokenizer [] = Inr []"
  by (simp_all add: has_digit_def findall_def scan_eval strip_def tokenize_def)






text \<open>
  Claim C3, as the code has it.  In strict mode a text that contains a digit makes
  \<open>tokenize_with_positions\<close> fail, and \<open>tokenize\<close> too (no digit being a whitespace
  character).  In strict mode a text without digits in which the pattern finds no token
  makes \<open>tokenize\<close> fail, unless the text is empty or all whitespace: then \<open>tokenize\<close>
  returns the empty list.
\<close>

theorem strict_mode_failures:
  "(strict self \<and> has_digit U text \<longrightarrow>
      tokenize_with_positions U self text = Inl DigitsNotAllowed
      \<and> (digits_not_space U \<longrightarrow> tokenize U self text = Inl DigitsNotAllowed))
   \<and> (strict self \<and> \<not> has_digit U text \<and> findall text = [] \<longrightarrow>
        tokenize U self text = (if strip text = [] then Inr [] else Inl NoValidTokens))"
  using blank_no_digit [of U "text"] tokenize_digits [of "text" self U]
    tokenize_no_tokens [of "text" self U] tokenize_blank [of "text" U self]
  by (auto simp: positions_unfold findall_Nil_iff)

theorem strict_mode_failures_witness:
  "strict strict_tokenizer \<and> digits_not_space ascii_db
   \<and> has_digit ascii_db (cp ''Hello 123'')
   \<and> tokenize ascii_db strict_tokenizer (cp ''Hello 123'') = Inl DigitsNotAllowed
   \<and> tokenize_with_positions ascii_db strict_tokenizer (cp ''Hello 123'') = Inl DigitsNotAllowed
   \<and> \<not> has_digit ascii_db (cp ''!!'') \<and> findall (cp ''!!'') = []
   \<and> tokenize ascii_db strict_tokenizer (cp ''!!'') = Inl NoValidTokens"
proof -
  have s: "strict strict_tokenizer" by (simp add: strict_tokenizer_def)
  from strict_mode_failures [of strict_tokenizer ascii_db "cp ''Hello 123''"] s strict_hello
    ascii_digits_not_space
  have a: "tokenize ascii_db strict_tokenizer (cp ''Hello 123'') = Inl DigitsNotAllowed"
    "tokenize_with_positions ascii_db strict_tokenizer (cp ''Hello 123'') = Inl DigitsNotAllowed"
    by simp_all
  from strict_mode_failures [of strict_tokenizer ascii_db "cp ''!!''"] s strict_bang
  have b: "tokenize ascii_db strict_tokenizer (cp ''!!'') = Inl NoValidTokens"
    by simp
  from s ascii_digits_not_space strict_hello a strict_bang(1,2) b show ?thesis by simp
qed

text \<open>
  The claim as written fails on blank input: the empty text and the text of one space
  contain no digit and yield no token, and strict \<open>tokenize\<close> returns the empty list.
\<close>

theorem strict_blank_counterexample:
  "strict strict_tokenizer
   \<and> \<not> has_digit ascii_db [] \<and> findall [] = []
   \<and> tokenize ascii_db strict_tokenizer [] = Inr []
   \<and> \<not> has_digit ascii_db (cp '' '') \<and> findall (cp '' '') = []
   \<and> tokenize ascii_db strict_tokenizer (cp '' '') = Inr []"
  using strict_blank strict_empty by (simp add: strict_tokenizer_def)

text \<open>
  Claim C7.  With the default tokenizer \<open>"Dr. Abebe."\<close> is one sentence,
  \<open>"DR. ABEBE."\<close>.  With case preservation the text keeps its case while the
  abbreviations compared against it are upper case, so \<open>"Dr."\<close> is not protected and
  the text is split at its period.
\<close>

theorem sentence_abbreviation_case:
  "sentence_tokenize ascii_db default_tokenizer (cp ''Dr. Abebe.'') = Inr [cp ''DR. ABEBE.'']
   \<and> sentence_tokenize ascii_db case_preserving_tokenizer (cp ''Dr. Abebe.'')
       = Inr [cp ''Dr.'', cp ''Abebe.'']"
  using sentence_default sentence_keep_case by simp

subsection \<open>The syllabifier\<close>

lemma strip_Nil: "strip [] = []"
  by (simp add: strip_def)

lemma concat_parse_syllables: "concat (parse_syllables word) = word"
  by (auto simp: parse_syllables_def Let_def split: prod.splits)

lemma concat_split_on: "concat (split_on sep w) = filter (\<lambda>c. c \<noteq> sep) w"
  by (induction w) (auto split: list.splits simp: split_on_nonempty)

lemma syllabify_rejected: "\<not> accepts U strict_mode w \<Longrightarrow> syllabify U strict_mode w = []"
  by (subst syllabify.simps) (auto simp: accepts_def Let_def)

lemma syllabify_accepted:
  "accepts U strict_mode w \<Longrightarrow>
     syllabify U strict_mode w =
       (let word = normalize_word U w in
        if 39 \<in> set word then concat (map (syllabify U strict_mode) (split_on 39 word))
        else if 45 \<in> set word then concat (map (syllabify U strict_mode) (split_on 45 word))
        else parse_syllables word)"
  by (subst syllabify.simps) (auto simp: accepts_def Let_def strip_Nil)

lemma word_char_not_space: "is_word_char c \<Longrightarrow> \<not> py_isspace c"
  by (auto simp: is_word_char_def py_isspace_def)

lemma part_accepted:
  assumes acc: "accepts U strict_mode w" and p: "p \<in> set (split_on sep (normalize_word U w))"
    and ne: "p \<noteq> []"
  shows "accepts U strict_mode p"
proof -
  let ?word = "normalize_word U w"
  from split_on_parts [OF p] have sub: "set p \<subseteq> set ?word" by simp
  have np: "normalize_word U p = p" using p by (rule part_normalized)
  from acc have v: "list_all is_word_char ?word" and d: "\<not> contains_digit ?word"
    and l: "\<not> strict_mode \<or> is_lower_word ?word"
    by (simp_all add: accepts_def is_valid_word_def)
  from v sub have vp: "list_all is_word_char p" by (auto simp: list_all_iff)
  from ne obtain c r where cr: "p = c # r" by (cases p) auto
  with vp have "\<not> py_isspace c" by (simp add: word_char_not_space)
  then have "\<not> list_all py_isspace p" using cr by simp
  then have s: "strip p \<noteq> []" by (simp add: strip_empty_iff)
  from d sub have dp: "\<not> contains_digit p" by (auto simp: contains_digit_def list_ex_iff)
  from l sub ne have lp: "\<not> strict_mode \<or> is_lower_word p"
    by (auto simp: is_lower_word_def list_all_iff)
  from s dp vp ne lp show ?thesis by (simp add: accepts_def np is_valid_word_def)
qed

lemma concat_concat_map: "concat (concat (map f xs)) = concat (map (\<lambda>x. concat (f x)) xs)"
  by (induction xs) auto

lemma no_separators_concat: "concat (map no_separators xs) = no_separators (concat xs)"
  by (induction xs) (auto simp: no_separators_def)

lemma no_separators_split:
  "sep = 39 \<or> sep = 45 \<Longrightarrow> no_separators (concat (split_on sep w)) = no_separators w"
  by (auto simp: concat_split_on no_separators_def intro: filter_cong)

lemma no_separators_id: "39 \<notin> set w \<Longrightarrow> 45 \<notin> set w \<Longrightarrow> no_separators w = w"
  by (auto simp: no_separators_def intro!: filter_True)

lemma syllabify_concat:
  "accepts U strict_mode w \<Longrightarrow>
     concat (syllabify U strict_mode w) = no_separators (normalize_word U w)"
proof (induction U strict_mode w rule: syllabify.induct)
  case (1 U strict_mode word0)
  let ?word = "normalize_word U word0"
  note acc = "1.prems"
  from acc have pre: "\<not> (word0 = [] \<or> strip word0 = [])" "\<not> contains_digit ?word"
    "\<not> \<not> is_valid_word ?word" "\<not> (strict_mode \<and> \<not> is_lower_word ?word)"
    by (auto simp: accepts_def strip_Nil)
  have empty_part: "concat (syllabify U strict_mode []) = no_separators []"
    by (simp add: syllabify_rejected accepts_def strip_Nil no_separators_def)
  have parts: "concat (concat (map (syllabify U strict_mode) (split_on sep ?word))) = no_separators ?word"
    if sep: "sep = 39 \<or> sep = 45"
      and ih: "\<And>p. p \<in> set (split_on sep ?word) \<Longrightarrow> accepts U strict_mode p
                 \<Longrightarrow> concat (syllabify U strict_mode p) = no_separators (normalize_word U p)"
    for sep
  proof -
    have "concat (syllabify U strict_mode p) = no_separators p"
      if p: "p \<in> set (split_on sep ?word)" for p
    proof (cases "p = []")
      case True
      with empty_part show ?thesis by simp
    next
      case False
      from ih [OF p part_accepted [OF acc p False]] part_normalized [OF p]
      show ?thesis by simp
    qed
    then have "map (\<lambda>p. concat (syllabify U strict_mode p)) (split_on sep ?word)
                 = map no_separators (split_on sep ?word)"
      by simp
    then show ?thesis
      using sep by (simp only: concat_concat_map no_separators_concat no_separators_split)
  qed
  show ?case
  proof (cases "39 \<in> set ?word")
    case True
    have "concat (concat (map (syllabify U strict_mode) (split_on 39 ?word))) = no_separators ?word"
      using "1.IH"(1) [OF pre(1) refl pre(2) pre(3) pre(4) True] by (intro parts) auto
    with True show ?thesis by (simp add: syllabify_accepted [OF acc] Let_def)
  next
    case n39: False
    show ?thesis
    proof (cases "45 \<in> set ?word")
      case True
      have "concat (concat (map (syllabify U strict_mode) (split_on 45 ?word))) = no_separators ?word"
        using "1.IH"(2) [OF pre(1) refl pre(2) pre(3) pre(4) n39 True] by (intro parts) auto
      with n39 True show ?thesis by (simp add: syllabify_accepted [OF acc] Let_def)
    next
      case False
      with n39 show ?thesis
        by (simp add: syllabify_accepted [OF acc] Let_def concat_parse_syllables no_separators_id)
    qed
  qed
qed

lemma syllable_loop_Nil: "syllable_loop [] syllables = (syllables, [])"
  by (subst syllable_loop.simps) simp

lemma syllable_loop_Cons:
  "syllable_loop (c # r) syllables =
     (case take_onset (c # r) of (onset, r1) \<Rightarrow>
        if takeWhile is_vowel r1 = [] then (syllables, r1)
        else
          (case take_coda (dropWhile is_vowel r1) of (coda, r3) \<Rightarrow>
             syllable_loop r3 (syllables @ [onset @ takeWhile is_vowel r1 @ coda])))"
  by (subst syllable_loop.simps) (simp add: Let_def split: prod.splits)

lemmas letters_eval = is_consonant_def is_vowel_def ascii_upper_def CONSONANTS_def VOWELS_def
  digraphs_def cp_eval

lemmas parse_eval = parse_syllables_def syllable_loop_Nil syllable_loop_Cons letters_eval Let_def

lemma parse_re: "parse_syllables (cp ''re'') = [cp ''re'']"
  by (simp add: parse_eval)

lemma parse_e: "parse_syllables (cp ''e'') = [cp ''e'']"
  by (simp add: parse_eval)

lemma parse_dubbachuu: "parse_syllables (cp ''dubbachuu'') = [cp ''dub'', cp ''ba'', cp ''chuu'']"
  by (simp add: parse_eval)

lemma parse_abc: "parse_syllables (cp ''abc'') = [cp ''abc'']"
  by (simp add: parse_eval)

lemmas accepts_eval = accepts_def strip_def py_isspace_def normalize_word_def ascii_fold_def
  ascii_lower_def contains_digit_def is_valid_word_def is_word_char_def is_lower_word_def cp_eval

lemma norm_ree: "normalize_word U (cp [CHR ''R'', CHR ''e'', CHR 0x27, CHR ''e'']) = cp [CHR ''r'', CHR ''e'', CHR 0x27, CHR ''e'']"
  by (simp add: normalize_word_def ascii_fold_def ascii_lower_def cp_eval)

lemma acc_ree: "accepts U False (cp [CHR ''R'', CHR ''e'', CHR 0x27, CHR ''e''])"
  by (simp add: accepts_eval)

lemma acc_re: "accepts U False (cp ''re'')" "normalize_word U (cp ''re'') = cp ''re''"
  by (simp_all add: accepts_eval)

lemma acc_e: "accepts U False (cp ''e'')" "normalize_word U (cp ''e'') = cp ''e''"
  by (simp_all add: accepts_eval)

lemma nosep_re: "39 \<notin> set (cp ''re'')" "45 \<notin> set (cp ''re'')"
  "39 \<notin> set (cp ''e'')" "45 \<notin> set (cp ''e'')"
  by (simp_all add: cp_eval)

lemma syl_re: "syllabify U False (cp ''re'') = [cp ''re'']"
  by (simp add: syllabify_accepted [OF acc_re(1)] acc_re(2) parse_re nosep_re)

lemma syl_e: "syllabify U False (cp ''e'') = [cp ''e'']"
  by (simp add: syllabify_accepted [OF acc_e(1)] acc_e(2) parse_e nosep_re)

lemma split_ree: "split_on 39 (cp [CHR ''r'', CHR ''e'', CHR 0x27, CHR ''e'']) = [cp ''re'', cp ''e'']"
  by (simp add: cp_eval)

lemma syl_ree: "syllabify U False (cp [CHR ''R'', CHR ''e'', CHR 0x27, CHR ''e'']) = [cp ''re'', cp ''e'']"
proof -
  have m: "39 \<in> set (cp [CHR ''r'', CHR ''e'', CHR 0x27, CHR ''e''])" by (simp add: cp_eval)
  show ?thesis
    by (simp add: syllabify_accepted [OF acc_ree] norm_ree m split_ree syl_re syl_e)
qed

lemma normalize_word_is_ascii: "is_ascii (normalize_word U w)"
  using normalize_word_ascii [of U w] by (simp add: is_ascii_def)

lemma normalize_word_of_ascii: "is_ascii w \<Longrightarrow> normalize_word U w = map ascii_lower w"
  by (induction w) (auto simp: is_ascii_def normalize_word_def ascii_fold_fix)

text \<open>
  Claim C1, as the code has it.  The normalized word is what \<open>_normalize_word\<close> computes:
  the word decomposed (NFKD), every code point that is not ASCII dropped, the rest
  lower-cased.  It is always ASCII; for an ASCII word it is the word lower-cased, and a
  character with no ASCII code point in its decomposition leaves nothing behind.
  Whenever \<open>syllabify\<close> returns a non-empty list, the concatenation of the list is the
  normalized word without its apostrophes and hyphens; when the normalized word has no
  apostrophe and no hyphen it is the normalized word itself.
\<close>

theorem syllabify_reconstruction:
  "(syllabify U strict_mode W \<noteq> [] \<longrightarrow>
      concat (syllabify U strict_mode W) = no_separators (normalize_word U W))
   \<and> (syllabify U strict_mode W \<noteq> [] \<and> 39 \<notin> set (normalize_word U W)
        \<and> 45 \<notin> set (normalize_word U W) \<longrightarrow>
      concat (syllabify U strict_mode W) = normalize_word U W)
   \<and> is_ascii (normalize_word U W)
   \<and> (is_ascii W \<longrightarrow> normalize_word U W = map ascii_lower W)"
proof -
  have a: "concat (syllabify U strict_mode W) = no_separators (normalize_word U W)"
    if "syllabify U strict_mode W \<noteq> []"
  proof -
    from that have "accepts U strict_mode W"
      using syllabify_rejected [of U strict_mode W] by blast
    then show ?thesis by (rule syllabify_concat)
  qed
  then have "(syllabify U strict_mode W \<noteq> [] \<longrightarrow>
      concat (syllabify U strict_mode W) = no_separators (normalize_word U W))
   \<and> (syllabify U strict_mode W \<noteq> [] \<and> 39 \<notin> set (normalize_word U W)
        \<and> 45 \<notin> set (normalize_word U W) \<longrightarrow>
      concat (syllabify U strict_mode W) = normalize_word U W)"
    by (auto simp: no_separators_id)
  with normalize_word_is_ascii [of U W] normalize_word_of_ascii [of W U] show ?thesis
    by blast
qed

lemma acc_dubbachuu:
  "accepts U False (cp ''Dubbachuu'')" "normalize_word U (cp ''Dubbachuu'') = cp ''dubbachuu''"
  "39 \<notin> set (cp ''dubbachuu'')" "45 \<notin> set (cp ''dubbachuu'')"
  by (simp_all add: accepts_eval)

lemma syl_dubbachuu:
  "syllabify U False (cp ''Dubbachuu'') = [cp ''dub'', cp ''ba'', cp ''chuu'']"
  by (simp add: syllabify_accepted [OF acc_dubbachuu(1)] acc_dubbachuu(2,3,4) parse_dubbachuu)

theorem syllabify_reconstruction_witness:
  "syllabify ascii_db False (cp ''Dubbachuu'') = [cp ''dub'', cp ''ba'', cp ''chuu'']
   \<and> normalize_word ascii_db (cp ''Dubbachuu'') = cp ''dubbachuu''
   \<and> concat (syllabify ascii_db False (cp ''Dubbachuu'')) = cp ''dubbachuu''
   \<and> syllabify ascii_db False (cp [CHR ''R'', CHR ''e'', CHR 0x27, CHR ''e'']) = [cp ''re'', cp ''e'']
   \<and> concat (syllabify ascii_db False (cp [CHR ''R'', CHR ''e'', CHR 0x27, CHR ''e'']))
       = no_separators (cp [CHR ''r'', CHR ''e'', CHR 0x27, CHR ''e''])"
proof -
  have n: "syllabify ascii_db False (cp ''Dubbachuu'') \<noteq> []"
    by (simp add: syl_dubbachuu)
  from syllabify_reconstruction [of ascii_db False "cp ''Dubbachuu''", THEN conjunct2, THEN conjunct1]
    n acc_dubbachuu(2,3,4)
  have c: "concat (syllabify ascii_db False (cp ''Dubbachuu'')) = cp ''dubbachuu''"
    by simp
  have m: "syllabify ascii_db False (cp [CHR ''R'', CHR ''e'', CHR 0x27, CHR ''e'']) \<noteq> []"
    by (simp add: syl_ree)
  from syllabify_reconstruction [of ascii_db False "cp [CHR ''R'', CHR ''e'', CHR 0x27, CHR ''e'']",
      THEN conjunct1] m
  have d: "concat (syllabify ascii_db False (cp [CHR ''R'', CHR ''e'', CHR 0x27, CHR ''e'']))
       = no_separators (cp [CHR ''r'', CHR ''e'', CHR 0x27, CHR ''e''])"
    by (simp add: norm_ree)
  from syl_dubbachuu acc_dubbachuu(2) c syl_ree d show ?thesis by simp
qed

text \<open>
  The claim as written fails on a word with an apostrophe: \<open>syllabify("Re'e")\<close> is
  \<open>["re", "e"]\<close>, whose concatenation \<open>"ree"\<close> is not the normalized word \<open>"re'e"\<close>
  (here the word lower-cased, all its characters being ASCII).
\<close>

theorem syllabify_separator_counterexample:
  "syllabify ascii_db False (cp [CHR ''R'', CHR ''e'', CHR 0x27, CHR ''e'']) = [cp ''re'', cp ''e'']
   \<and> normalize_word ascii_db (cp [CHR ''R'', CHR ''e'', CHR 0x27, CHR ''e''])
       = cp [CHR ''r'', CHR ''e'', CHR 0x27, CHR ''e'']
   \<and> concat (syllabify ascii_db False (cp [CHR ''R'', CHR ''e'', CHR 0x27, CHR ''e''])) = cp ''ree''
   \<and> concat (syllabify ascii_db False (cp [CHR ''R'', CHR ''e'', CHR 0x27, CHR ''e'']))
       \<noteq> normalize_word ascii_db (cp [CHR ''R'', CHR ''e'', CHR 0x27, CHR ''e''])"
  by (simp add: syl_ree norm_ree) (simp add: cp_eval)

subsection \<open>The normalizer\<close>















lemma map_upper_ascii: "is_ascii t \<Longrightarrow> is_ascii (map ascii_upper t)"
  by (auto simp: is_ascii_def list_all_iff ascii_upper_def)

lemma concat_ch_numbers:
  "filter (\<lambda>c. \<not> ascii_digit c) t = concat (map (\<lambda>c. if ascii_digit c then [] else [c]) t)"
  by (induction t) auto
































































end
